theory Spec2Isabelle
  imports Complex_Main
begin

section \<open>Python values\<close>

text \<open>
  A model of the two crawler scripts of the repository, \<open>main.py\<close> and
  \<open>tiki_queue.py\<close>. They implement the same pipeline (a queue table, a fetch with
  retries, batch upserts) and differ in details; a definition that embeds a function of
  one script carries the script's name as a prefix where the two scripts both have a
  function of that name.
\<close>

text \<open>
  The values that \<open>resp.json()\<close> can return and that the result dictionaries hold.
  A JSON number with a fraction is carried as the rational it denotes; the only
  thing the scripts ask of a number is whether it is zero (a NaN or an infinity, which
  the decoder also accepts, behaves like any non-zero number there). A dictionary is
  the list of its entries; its keys are distinct.
\<close>

datatype pyval =
    PNone
  | PBool bool
  | PInt int
  | PFloat rat
  | PStr string
  | PList "pyval list"
  | PDict "(string \<times> pyval) list"

text \<open>Python truthiness, as used by \<open>if not text\<close>, \<open>not v\<close> and \<open>if data.get("images")\<close>.\<close>

fun truthy :: "pyval \<Rightarrow> bool" where
  "truthy PNone = False"
| "truthy (PBool b) = b"
| "truthy (PInt i) = (i \<noteq> 0)"
| "truthy (PFloat q) = (q \<noteq> 0)"
| "truthy (PStr s) = (s \<noteq> [])"
| "truthy (PList xs) = (xs \<noteq> [])"
| "truthy (PDict kvs) = (kvs \<noteq> [])"

text \<open>
  The exceptions that can arise inside the fetch loops. All of them are subclasses of
  Python's \<open>Exception\<close>; \<open>ProductNotFoundError\<close> is the class declared in
  \<open>tiki_queue.py\<close>, \<open>ReError\<close> is \<open>re.error\<close>, raised when a regular
  expression does not compile.
\<close>

datatype py_exception =
    ProductNotFoundError int
  | ClientError
  | ContentTypeError
  | AttributeError
  | TypeError
  | KeyError
  | IndexError
  | ReError

text \<open>\<open>d.get(k)\<close>: a method of dictionaries only; a missing key gives \<open>None\<close>.\<close>

fun py_get :: "pyval \<Rightarrow> string \<Rightarrow> py_exception + pyval" where
  "py_get (PDict kvs) k = Inr (case map_of kvs k of None \<Rightarrow> PNone | Some v \<Rightarrow> v)"
| "py_get _ k = Inl AttributeError"

text \<open>\<open>v[0]\<close>: lists and strings are indexed, a JSON object has no key \<open>0\<close>.\<close>

fun py_index0 :: "pyval \<Rightarrow> py_exception + pyval" where
  "py_index0 (PList []) = Inl IndexError"
| "py_index0 (PList (x # xs)) = Inr x"
| "py_index0 (PStr []) = Inl IndexError"
| "py_index0 (PStr (c # cs)) = Inr (PStr [c])"
| "py_index0 (PDict kvs) = Inl KeyError"
| "py_index0 _ = Inl TypeError"

text \<open>\<open>sep.join(xs)\<close>\<close>

fun join :: "string \<Rightarrow> string list \<Rightarrow> string" where
  "join sep [] = []"
| "join sep [x] = x"
| "join sep (x # y # ys) = x @ sep @ join sep (y # ys)"

section \<open>Configuration and environment\<close>

definition RETRIES :: nat where
  "RETRIES = 5"

definition BATCH_SIZE :: nat where
  "BATCH_SIZE = 5000"

definition FIELDS :: "string list" where
  "FIELDS = [''id'', ''name'', ''url_key'', ''price'', ''description'', ''image_url'',
             ''missing_fields'']"

text \<open>
  What one \<open>session.get\<close> brings back: a response with its status and the value of
  \<open>resp.json()\<close> (\<open>None\<close> when decoding the body raises), or an exception of the
  transport (timeout, connection error).
\<close>

datatype response =
    Response int "pyval option"
  | TransportFailure

text \<open>
  Everything outside the scripts that a run depends on:
  \<^item> \<open>normalize\<close>: what the pipeline of \<open>clean_text\<close> in \<open>tiki_queue.py\<close>
    (three \<open>re.sub\<close>, \<open>lower\<close>, whitespace collapse) makes of a string, kept
    opaque;
  \<^item> \<open>remote pid k\<close>: what the \<open>k\<close>-th request (counted from 0) for product
    \<open>pid\<close> brings back during this run;
  \<^item> \<open>sched\<close>: the order in which \<open>asyncio.as_completed\<close> yields the tasks of a
    batch.
\<close>

record env =
  normalize :: "string \<Rightarrow> string"
  remote :: "int \<Rightarrow> nat \<Rightarrow> response"
  sched :: "int list \<Rightarrow> int list"

section \<open>Storage\<close>

text \<open>
  A row of \<open>tiki_queue\<close> (columns \<open>id\<close>, \<open>status\<close>, \<open>last_error\<close>) and a result
  dictionary, which is also a row of \<open>tiki_product\<close> and \<open>tiki_error\<close>. The
  dictionary's key \<open>id\<close> is the field \<open>id'\<close>.
\<close>

record queue_row =
  qid :: int
  status :: string
  last_error :: "string option"

record product =
  id' :: int
  name :: pyval
  url_key :: pyval
  price :: pyval
  description :: pyval
  image_url :: pyval
  missing_fields :: pyval

text \<open>
  Tables keep their rows in insertion order. Neither \<open>SELECT\<close> of the queue has an
  \<open>ORDER BY\<close>, so the database may return the selected ids in any order: the two
  selections below return them in the order of the table, the properties of a selection
  speak of the set of its ids, and the runs considered further down work on any
  arrangement of the selected ids. The checks of the database driver on the
  type of a column value are not modelled: a row holds the values it is given. The
  column \<open>error_message\<close> that \<open>tiki_error.py\<close> declares is written by neither
  script and is left out.
\<close>

record db =
  tiki_queue :: "queue_row list"
  tiki_product :: "product list"
  tiki_error :: "product list"

section \<open>Queue management\<close>

text \<open>\<open>list(dict.fromkeys(ids))\<close>: the first occurrence of each id, in order.\<close>

definition dedup :: "int list \<Rightarrow> int list" where
  "dedup ids = foldl (\<lambda>acc x. if x \<in> set acc then acc else acc @ [x]) [] ids"

text \<open>
  \<open>INSERT INTO tiki_queue (id, status) VALUES ($1,'pending') ON CONFLICT(id) DO NOTHING\<close>
  for one id. \<open>tiki_queue.py\<close> leaves the status to the column default
  \<open>'pending'\<close>.
\<close>

definition insert_pending :: "queue_row list \<Rightarrow> int \<Rightarrow> queue_row list" where
  "insert_pending q pid =
     (if pid \<in> qid ` set q then q
      else q @ [\<lparr>qid = pid, status = ''pending'', last_error = None\<rparr>])"

text \<open>\<open>main.py\<close>, \<open>init_queue\<close>: \<open>ids\<close> is the id column read from the input file.\<close>

definition main_init_queue :: "queue_row list \<Rightarrow> int list \<Rightarrow> queue_row list" where
  "main_init_queue q ids = foldl insert_pending q (dedup ids)"

text \<open>\<open>tiki_queue.py\<close>, \<open>init_queue\<close>\<close>

definition tiki_queue_init_queue :: "queue_row list \<Rightarrow> int list \<Rightarrow> queue_row list" where
  "tiki_queue_init_queue q ids = foldl insert_pending q ids"

text \<open>\<open>main.py\<close>, \<open>fetch_pending_ids\<close>\<close>

definition fetch_pending_ids :: "queue_row list \<Rightarrow> int list" where
  "fetch_pending_ids q = map qid (filter (\<lambda>r. status r = ''pending'') q)"

text \<open>\<open>tiki_queue.py\<close>, \<open>fetch_pending_or_error_ids\<close>\<close>

definition fetch_pending_or_error_ids :: "queue_row list \<Rightarrow> int list" where
  "fetch_pending_or_error_ids q =
     map qid (filter (\<lambda>r. status r = ''pending'' \<or> status r = ''error'') q)"

text \<open>
  One \<open>UPDATE tiki_queue SET status=.., last_error=.. WHERE id=..\<close>; \<open>msg\<close> is
  \<open>None\<close> for \<open>last_error=NULL\<close>.
\<close>

definition set_status :: "string \<Rightarrow> string option \<Rightarrow> (int \<Rightarrow> bool) \<Rightarrow> queue_row list \<Rightarrow> queue_row list" where
  "set_status st msg sel q =
     map (\<lambda>r. if sel (qid r) then r\<lparr>status := st, last_error := msg\<rparr> else r) q"

text \<open>
  \<open>main.py\<close>, \<open>update_queue_status\<close>: one \<open>UPDATE .. WHERE id=$3\<close> per id
  (\<open>executemany\<close>). An empty or absent message takes the \<open>else\<close> branch.
\<close>

definition main_update_queue_status ::
  "queue_row list \<Rightarrow> int list \<Rightarrow> string \<Rightarrow> string option \<Rightarrow> queue_row list" where
  "main_update_queue_status q ids st error_message =
     (if ids = [] then q
      else if error_message \<noteq> None \<and> error_message \<noteq> Some []
        then foldl (\<lambda>q' pid. set_status st error_message (\<lambda>i. i = pid) q') q ids
        else foldl (\<lambda>q' pid. set_status st None (\<lambda>i. i = pid) q') q ids)"

text \<open>
  \<open>tiki_queue.py\<close>, \<open>update_queue_status\<close>: a single
  \<open>UPDATE .. WHERE id = ANY($3::bigint[])\<close>.
\<close>

definition tiki_queue_update_queue_status ::
  "queue_row list \<Rightarrow> int list \<Rightarrow> string \<Rightarrow> string option \<Rightarrow> queue_row list" where
  "tiki_queue_update_queue_status q ids st error_message =
     (if ids = [] then q
      else if error_message \<noteq> None \<and> error_message \<noteq> Some []
        then set_status st error_message (\<lambda>i. i \<in> set ids) q
        else set_status st None (\<lambda>i. i \<in> set ids) q)"

section \<open>Text cleaning and the result dictionary\<close>

definition ebind :: "'e + 'a \<Rightarrow> ('a \<Rightarrow> 'e + 'b) \<Rightarrow> 'e + 'b" where
  "ebind m f = (case m of Inl e \<Rightarrow> Inl e | Inr v \<Rightarrow> f v)"

text \<open>
  \<open>clean_text\<close> of \<open>tiki_queue.py\<close>: a falsy argument gives the empty string
  before any regular expression runs; the first \<open>re.sub\<close> raises \<open>TypeError\<close> on
  anything that is not a string.
\<close>

definition tiki_queue_clean_text :: "env \<Rightarrow> pyval \<Rightarrow> py_exception + string" where
  "tiki_queue_clean_text e text =
     (if \<not> truthy text then Inr []
      else case text of PStr s \<Rightarrow> Inr (normalize e s) | _ \<Rightarrow> Inl TypeError)"

text \<open>
  \<open>clean_text\<close> of \<open>main.py\<close>. The first two substitutions are those of
  \<open>tiki_queue.py\<close>. The character class of the third one (line 40) holds the range
  from U+00C4 to U+00B7, whose bounds are in descending order: the pattern does not
  compile, and \<open>re.sub\<close> raises \<open>re.error\<close> whenever the third substitution is
  reached, that is for every string that is not empty. A value that is not a string
  raises \<open>TypeError\<close> in the first substitution, as in \<open>tiki_queue.py\<close>.
\<close>

definition main_clean_text :: "pyval \<Rightarrow> py_exception + string" where
  "main_clean_text text =
     (if \<not> truthy text then Inr []
      else case text of PStr s \<Rightarrow> Inl ReError | _ \<Rightarrow> Inl TypeError)"

text \<open>
  \<open>data.get("images", [{}])[0].get("base_url") if data.get("images") else None\<close>.
  When the condition holds the key is present, so the default \<open>[{}]\<close> is never used.
\<close>

definition first_image :: "pyval \<Rightarrow> py_exception + pyval" where
  "first_image data =
     ebind (py_get data ''images'') (\<lambda>images.
       if truthy images
       then ebind (py_index0 images) (\<lambda>img. py_get img ''base_url'')
       else Inr PNone)"

text \<open>
  The dictionary literal of \<open>fetch_product\<close> (the same text in both scripts),
  evaluated in the order of its keys; \<open>clean\<close> is the \<open>clean_text\<close> of the script.
  \<open>missing_fields\<close> is not set yet.
\<close>

definition result_dict ::
  "(pyval \<Rightarrow> py_exception + string) \<Rightarrow> int \<Rightarrow> pyval \<Rightarrow> py_exception + product" where
  "result_dict clean pid data =
     ebind (py_get data ''name'') (\<lambda>n.
     ebind (clean n) (\<lambda>n'.
     ebind (py_get data ''url_key'') (\<lambda>u.
     ebind (py_get data ''price'') (\<lambda>p.
     ebind (py_get data ''description'') (\<lambda>d.
     ebind (clean d) (\<lambda>d'.
     ebind (first_image data) (\<lambda>i.
       Inr \<lparr>id' = pid, name = PStr n', url_key = u, price = p, description = PStr d',
            image_url = i, missing_fields = PNone\<rparr>)))))))"

text \<open>\<open>result.items()\<close> at the point where \<open>missing\<close> is computed: six entries.\<close>

definition items :: "product \<Rightarrow> (string \<times> pyval) list" where
  "items r = [(''id'', PInt (id' r)), (''name'', name r), (''url_key'', url_key r),
              (''price'', price r), (''description'', description r),
              (''image_url'', image_url r)]"

text \<open>\<open>main.py\<close>: \<open>[k for k, v in result.items() if k != "id" and (v is None or v == "")]\<close>\<close>

definition main_missing :: "product \<Rightarrow> string list" where
  "main_missing r =
     map fst (filter (\<lambda>(k, v). k \<noteq> ''id'' \<and> (v = PNone \<or> v = PStr [])) (items r))"

text \<open>\<open>tiki_queue.py\<close>: \<open>[k for k,v in result.items() if k!="id" and not v]\<close>\<close>

definition tiki_queue_missing :: "product \<Rightarrow> string list" where
  "tiki_queue_missing r =
     map fst (filter (\<lambda>(k, v). k \<noteq> ''id'' \<and> \<not> truthy v) (items r))"

text \<open>\<open>result["missing_fields"] = ",".join(missing) if missing else ""\<close>\<close>

definition with_missing :: "string list \<Rightarrow> product \<Rightarrow> product" where
  "with_missing missing r =
     r\<lparr>missing_fields := PStr (if missing \<noteq> [] then join '','' missing else [])\<rparr>"

definition main_result :: "int \<Rightarrow> pyval \<Rightarrow> py_exception + product" where
  "main_result pid data =
     ebind (result_dict main_clean_text pid data) (\<lambda>r. Inr (with_missing (main_missing r) r))"

definition tiki_queue_result :: "env \<Rightarrow> int \<Rightarrow> pyval \<Rightarrow> py_exception + product" where
  "tiki_queue_result e pid data =
     ebind (result_dict (tiki_queue_clean_text e) pid data)
       (\<lambda>r. Inr (with_missing (tiki_queue_missing r) r))"

text \<open>\<open>result[k]\<close>; \<open>None\<close> stands for \<open>KeyError\<close>.\<close>

definition subscript :: "product \<Rightarrow> string \<Rightarrow> pyval option" where
  "subscript r k = map_of (items r @ [(''missing_fields'', missing_fields r)]) k"

section \<open>Fetching one product\<close>

text \<open>
  How one pass through the body of the \<open>for\<close> loop ends, and what a fetch does
  besides returning: the requests it sends (tagged with the loop variable) and the
  \<open>asyncio.sleep\<close> calls with their seconds. Writing to the log file is left out.
\<close>

datatype 'a flow = Return 'a | Continue | Break

datatype event = Request nat | Sleep nat

definition transient_status :: "int \<Rightarrow> bool" where
  "transient_status st = (st \<in> set [429, 500, 502, 503, 504])"

text \<open>\<open>main.py\<close>: the \<open>try\<close> block of \<open>fetch_product\<close>; \<open>attempt\<close> runs from 0.\<close>

definition main_attempt :: "env \<Rightarrow> int \<Rightarrow> nat \<Rightarrow> (py_exception + product flow) \<times> event list" where
  "main_attempt e pid attempt =
     (case remote e pid attempt of
        TransportFailure \<Rightarrow> (Inl ClientError, [Request attempt])
      | Response st body \<Rightarrow>
          if st = 200 then
            (case body of
               None \<Rightarrow> (Inl ContentTypeError, [Request attempt])
             | Some data \<Rightarrow>
                 (case main_result pid data of
                    Inl ex \<Rightarrow> (Inl ex, [Request attempt])
                  | Inr r \<Rightarrow> (Inr (Return r), [Request attempt])))
          else if transient_status st then
            (Inr Continue, [Request attempt, Sleep (2 * (attempt + 1))])
          else (Inr Break, [Request attempt]))"

text \<open>
  \<open>main.py\<close>: the \<open>for\<close> loop with its handler \<open>except Exception: pass\<close>.
  \<open>None\<close> means that the loop ended without a \<open>return\<close>.
\<close>

fun main_attempts :: "env \<Rightarrow> int \<Rightarrow> nat list \<Rightarrow> product option \<times> event list" where
  "main_attempts e pid [] = (None, [])"
| "main_attempts e pid (attempt # rest) =
     (case main_attempt e pid attempt of
        (Inl ex, tr) \<Rightarrow> (fst (main_attempts e pid rest), tr @ snd (main_attempts e pid rest))
      | (Inr (Return r), tr) \<Rightarrow> (Some r, tr)
      | (Inr Continue, tr) \<Rightarrow>
          (fst (main_attempts e pid rest), tr @ snd (main_attempts e pid rest))
      | (Inr Break, tr) \<Rightarrow> (None, tr))"

text \<open>\<open>{field: None if field != "id" else pid for field in FIELDS}\<close>\<close>

definition failure_dict :: "int \<Rightarrow> product" where
  "failure_dict pid =
     \<lparr>id' = pid, name = PNone, url_key = PNone, price = PNone, description = PNone,
      image_url = PNone, missing_fields = PNone\<rparr>"

text \<open>
  \<open>main.py\<close>, \<open>fetch_product\<close>. The result is the returned dictionary, the retry
  counter after the call and the trace; \<open>Inl\<close> would be an exception reaching the
  caller.
\<close>

definition main_fetch_product ::
  "env \<Rightarrow> int \<Rightarrow> (int \<rightharpoonup> nat) \<Rightarrow> py_exception + (product \<times> (int \<rightharpoonup> nat) \<times> event list)" where
  "main_fetch_product e pid retry_counter =
     (case main_attempts e pid [0..<RETRIES] of
        (Some r, tr) \<Rightarrow> Inr (r, retry_counter, tr)
      | (None, tr) \<Rightarrow>
          Inr (failure_dict pid,
               retry_counter(pid \<mapsto> (case retry_counter pid of None \<Rightarrow> 0 | Some n \<Rightarrow> n) + 1),
               tr))"

text \<open>
  \<open>tiki_queue.py\<close>: the \<open>try\<close> block of \<open>fetch_product\<close>; \<open>attempt\<close> runs from 1,
  so it sends request number \<open>attempt - 1\<close>.
\<close>

definition tiki_queue_attempt ::
  "env \<Rightarrow> int \<Rightarrow> nat \<Rightarrow> (py_exception + product flow) \<times> event list" where
  "tiki_queue_attempt e pid attempt =
     (case remote e pid (attempt - 1) of
        TransportFailure \<Rightarrow> (Inl ClientError, [Request attempt])
      | Response st body \<Rightarrow>
          if st = 200 then
            (case body of
               None \<Rightarrow> (Inl ContentTypeError, [Request attempt])
             | Some data \<Rightarrow>
                 (case tiki_queue_result e pid data of
                    Inl ex \<Rightarrow> (Inl ex, [Request attempt])
                  | Inr r \<Rightarrow> (Inr (Return r), [Request attempt])))
          else if st = 404 then (Inl (ProductNotFoundError pid), [Request attempt])
          else if transient_status st then
            (Inr Continue, [Request attempt, Sleep (2 * attempt)])
          else (Inr Break, [Request attempt]))"

text \<open>
  \<open>tiki_queue.py\<close>: the \<open>for\<close> loop with its two handlers:
  \<open>ProductNotFoundError\<close> is raised again, any other exception is followed by a sleep
  and the next attempt.
\<close>

fun tiki_queue_attempts ::
  "env \<Rightarrow> int \<Rightarrow> nat list \<Rightarrow> (py_exception + product option) \<times> event list" where
  "tiki_queue_attempts e pid [] = (Inr None, [])"
| "tiki_queue_attempts e pid (attempt # rest) =
     (case tiki_queue_attempt e pid attempt of
        (Inl ex, tr) \<Rightarrow>
          (case ex of
             ProductNotFoundError p \<Rightarrow> (Inl (ProductNotFoundError p), tr)
           | _ \<Rightarrow> (fst (tiki_queue_attempts e pid rest),
                   tr @ [Sleep (2 * attempt)] @ snd (tiki_queue_attempts e pid rest)))
      | (Inr (Return r), tr) \<Rightarrow> (Inr (Some r), tr)
      | (Inr Continue, tr) \<Rightarrow>
          (fst (tiki_queue_attempts e pid rest), tr @ snd (tiki_queue_attempts e pid rest))
      | (Inr Break, tr) \<Rightarrow> (Inr None, tr))"

text \<open>\<open>tiki_queue.py\<close>, \<open>fetch_product\<close>\<close>

definition tiki_queue_fetch_product ::
  "env \<Rightarrow> int \<Rightarrow> (py_exception + product option) \<times> event list" where
  "tiki_queue_fetch_product e pid = tiki_queue_attempts e pid [1..<RETRIES + 1]"

section \<open>Batch persistence\<close>

text \<open>
  \<open>INSERT .. ON CONFLICT(id) DO UPDATE SET\<close> every other column, for one record.
  The row tuple is \<open>(r.get("id"), r.get("name"), ..)\<close>: the seven fields of the
  dictionary.
\<close>

definition upsert_row :: "product list \<Rightarrow> product \<Rightarrow> product list" where
  "upsert_row t r =
     (if id' r \<in> id' ` set t then map (\<lambda>x. if id' x = id' r then r else x) t
      else t @ [r])"

text \<open>\<open>main.py\<close>, \<open>insert_batch\<close>, on the table named by \<open>table_name\<close>\<close>

definition insert_batch :: "product list \<Rightarrow> product list \<Rightarrow> product list" where
  "insert_batch t records = (if records = [] then t else foldl upsert_row t records)"

text \<open>
  \<open>tiki_queue.py\<close>, \<open>insert_batch_to_db\<close>; \<open>CREATE TABLE IF NOT EXISTS\<close> leaves
  an existing table as it is.
\<close>

definition insert_batch_to_db :: "product list \<Rightarrow> product list \<Rightarrow> product list" where
  "insert_batch_to_db t records = (if records = [] then t else foldl upsert_row t records)"

section \<open>Processing a batch\<close>

text \<open>
  \<open>main.py\<close>: the test of \<open>process_batch\<close>,
  \<open>result and all(result[k] is None for k in FIELDS if k != "id")\<close>.
  A dictionary with keys is truthy.
\<close>

definition all_none :: "product \<Rightarrow> bool" where
  "all_none r = list_all (\<lambda>k. subscript r k = Some PNone) (filter (\<lambda>k. k \<noteq> ''id'') FIELDS)"

text \<open>
  \<open>main.py\<close>: the loop of \<open>process_batch\<close> over the tasks in the order they
  complete. An exception of a task would leave the loop.
\<close>

fun main_route ::
  "env \<Rightarrow> int list \<Rightarrow> product list \<times> product list \<times> (int \<rightharpoonup> nat) \<Rightarrow>
   py_exception + (product list \<times> product list \<times> (int \<rightharpoonup> nat))" where
  "main_route e [] acc = Inr acc"
| "main_route e (pid # rest) (good_records, error_records, retry_counter) =
     (case main_fetch_product e pid retry_counter of
        Inl ex \<Rightarrow> Inl ex
      | Inr (result, retry_counter', tr) \<Rightarrow>
          if all_none result
          then main_route e rest (good_records, error_records @ [result], retry_counter')
          else main_route e rest (good_records @ [result], error_records, retry_counter'))"

definition main_process_batch ::
  "env \<Rightarrow> int list \<Rightarrow> py_exception + (product list \<times> product list \<times> (int \<rightharpoonup> nat))" where
  "main_process_batch e batch_ids = main_route e (sched e batch_ids) ([], [], Map.empty)"

text \<open>\<open>tiki_queue.py\<close>: the record appended for a \<open>ProductNotFoundError\<close>\<close>

definition not_found_record :: "int \<Rightarrow> product" where
  "not_found_record pid =
     \<lparr>id' = pid, name = PNone, url_key = PNone, price = PNone, description = PNone,
      image_url = PNone, missing_fields = PStr ''all_fields''\<rparr>"

text \<open>
  \<open>tiki_queue.py\<close>: the loop of \<open>process_batch\<close>. A returned dictionary is truthy,
  \<open>None\<close> is skipped, \<open>ProductNotFoundError\<close> gives an error record and an error
  id, any other exception is only logged.
\<close>

fun tiki_queue_route ::
  "env \<Rightarrow> int list \<Rightarrow> product list \<times> product list \<times> int list \<Rightarrow>
   product list \<times> product list \<times> int list" where
  "tiki_queue_route e [] acc = acc"
| "tiki_queue_route e (pid # rest) (good_records, error_records, error_ids) =
     (case fst (tiki_queue_fetch_product e pid) of
        Inr (Some r) \<Rightarrow> tiki_queue_route e rest (good_records @ [r], error_records, error_ids)
      | Inr None \<Rightarrow> tiki_queue_route e rest (good_records, error_records, error_ids)
      | Inl ex \<Rightarrow>
          (case ex of
             ProductNotFoundError p \<Rightarrow>
               tiki_queue_route e rest
                 (good_records, error_records @ [not_found_record p], error_ids @ [p])
           | _ \<Rightarrow> tiki_queue_route e rest (good_records, error_records, error_ids)))"

text \<open>
  \<open>tiki_queue.py\<close>, \<open>process_batch\<close>: the new state of the database and the two
  counts it returns.
\<close>

definition tiki_queue_process_batch :: "env \<Rightarrow> db \<Rightarrow> int list \<Rightarrow> db \<times> nat \<times> nat" where
  "tiki_queue_process_batch e d batch_ids =
     (case tiki_queue_route e (sched e batch_ids) ([], [], []) of
        (good_records, error_records, error_ids) \<Rightarrow>
          (\<lparr>tiki_queue =
              tiki_queue_update_queue_status
                (tiki_queue_update_queue_status (tiki_queue d) (map id' good_records)
                   ''done'' None)
                error_ids ''error'' (Some ''404 Not Found''),
            tiki_product = insert_batch_to_db (tiki_product d) good_records,
            tiki_error = insert_batch_to_db (tiki_error d) error_records\<rparr>,
           length good_records, length error_records))"

section \<open>The two entry points\<close>

text \<open>
  \<open>pending_ids[i:i+BATCH_SIZE] for i in range(0, len(pending_ids), BATCH_SIZE)\<close>.
  A step of 0 is an error of \<open>range\<close>; the constant is 5000.
\<close>

function chunks :: "nat \<Rightarrow> 'a list \<Rightarrow> 'a list list" where
  "chunks n xs = (if n = 0 \<or> xs = [] then [] else take n xs # chunks n (drop n xs))"
  by pat_completeness auto
termination
  by (relation "measure (\<lambda>(n, xs). length xs)") auto

declare chunks.simps [simp del]

text \<open>\<open>main.py\<close>: the body of the loop of \<open>main\<close>, batch after batch.\<close>

fun main_batches :: "env \<Rightarrow> int list list \<Rightarrow> db \<Rightarrow> py_exception + db" where
  "main_batches e [] d = Inr d"
| "main_batches e (batch # rest) d =
     (case main_process_batch e batch of
        Inl ex \<Rightarrow> Inl ex
      | Inr (good, error, retries) \<Rightarrow>
          main_batches e rest
            \<lparr>tiki_queue =
               main_update_queue_status
                 (main_update_queue_status (tiki_queue d) (map id' good) ''done'' None)
                 (map id' error) ''error'' (Some ''Failed after retries''),
             tiki_product = insert_batch (tiki_product d) good,
             tiki_error = insert_batch (tiki_error d) error\<rparr>)"

text \<open>\<open>main.py\<close>, \<open>main\<close>: \<open>ids\<close> is the id column of the input file.\<close>

definition main_main :: "env \<Rightarrow> int list \<Rightarrow> db \<Rightarrow> py_exception + db" where
  "main_main e ids d =
     (let d1 = d\<lparr>tiki_queue := main_init_queue (tiki_queue d) ids\<rparr>;
          pending_ids = fetch_pending_ids (tiki_queue d1)
      in main_batches e (chunks BATCH_SIZE pending_ids) d1)"

text \<open>\<open>tiki_queue.py\<close>: the loop of \<open>main\<close>.\<close>

fun tiki_queue_batches :: "env \<Rightarrow> int list list \<Rightarrow> db \<Rightarrow> db" where
  "tiki_queue_batches e [] d = d"
| "tiki_queue_batches e (batch_ids # rest) d =
     tiki_queue_batches e rest (fst (tiki_queue_process_batch e d batch_ids))"

text \<open>
  \<open>tiki_queue.py\<close>, \<open>main\<close>: the queue is initialised only when it has no row.
  The table \<open>tiki_queue\<close> is taken to exist.
\<close>

definition tiki_queue_main :: "env \<Rightarrow> int list \<Rightarrow> db \<Rightarrow> db" where
  "tiki_queue_main e ids d =
     (let d1 = (if length (tiki_queue d) = 0
                then d\<lparr>tiki_queue := tiki_queue_init_queue (tiki_queue d) (dedup ids)\<rparr>
                else d);
          pending_ids = fetch_pending_or_error_ids (tiki_queue d1)
      in tiki_queue_batches e (chunks BATCH_SIZE pending_ids) d1)"

section \<open>Scenarios\<close>

text \<open>
  An environment for concrete runs: the given remote, tasks completing in the order of
  the batch, and a text pipeline that leaves its argument as it is (as the regular
  expressions of \<open>clean_text\<close> in \<open>tiki_queue.py\<close> do on the one-letter words
  used below).
\<close>

definition scenario :: "(int \<Rightarrow> nat \<Rightarrow> response) \<Rightarrow> env" where
  "scenario r = \<lparr>normalize = (\<lambda>s. s), remote = r, sched = (\<lambda>batch. batch)\<rparr>"

text \<open>A payload with every field present and a price of 0.\<close>

definition free_product :: pyval where
  "free_product =
     PDict [(''name'', PStr ''a''), (''url_key'', PStr ''k''), (''price'', PInt 0),
            (''description'', PStr ''d''),
            (''images'', PList [PDict [(''base_url'', PStr ''u'')]])]"

text \<open>
  The payload \<open>{}\<close>, from which nothing can be extracted, and the dictionary that
  both scripts build from it: \<open>clean_text(None)\<close> is the empty string, every other
  field is \<open>None\<close>, and all five fields are listed as missing.
\<close>

definition empty_payload :: pyval where
  "empty_payload = PDict []"

definition empty_record :: "int \<Rightarrow> product" where
  "empty_record pid =
     \<lparr>id' = pid, name = PStr [], url_key = PNone, price = PNone, description = PStr [],
      image_url = PNone, missing_fields = PStr ''name,url_key,price,description,image_url''\<rparr>"

text \<open>A database with three empty tables.\<close>

definition empty_db :: db where
  "empty_db = \<lparr>tiki_queue = [], tiki_product = [], tiki_error = []\<rparr>"

text \<open>A database whose queue holds the given ids, all pending, and nothing else.\<close>

definition pending_db :: "int list \<Rightarrow> db" where
  "pending_db ids =
     \<lparr>tiki_queue = map (\<lambda>i. \<lparr>qid = i, status = ''pending'', last_error = None\<rparr>) ids,
      tiki_product = [], tiki_error = []\<rparr>"

section \<open>Reading a trace\<close>

text \<open>The seconds slept and the requests sent, in order.\<close>

fun sleeps :: "event list \<Rightarrow> nat list" where
  "sleeps [] = []"
| "sleeps (Sleep s # tr) = s # sleeps tr"
| "sleeps (Request a # tr) = sleeps tr"

fun requests :: "event list \<Rightarrow> nat list" where
  "requests [] = []"
| "requests (Request a # tr) = a # requests tr"
| "requests (Sleep s # tr) = requests tr"

text \<open>
  A transient outcome of one request, in the words of the specification: one of the five
  statuses, or an exception of the transport.
\<close>

fun transient :: "response \<Rightarrow> bool" where
  "transient (Response st body) = transient_status st"
| "transient TransportFailure = True"

text \<open>A status that is neither 200, nor 404, nor one of the five transient ones.\<close>

fun other_status :: "response \<Rightarrow> bool" where
  "other_status (Response st body) = (st \<noteq> 200 \<and> st \<noteq> 404 \<and> \<not> transient_status st)"
| "other_status TransportFailure = False"

section \<open>Notions used to state the properties of a run\<close>

text \<open>
  The four statements that end a batch in both scripts (\<open>main.py\<close> lines 170 to 173,
  \<open>tiki_queue.py\<close> lines 183 to 186), with each status update written as one
  \<open>UPDATE\<close> over a set of ids. The lemmas \<open>main_batches_step\<close> and
  \<open>tiki_queue_process_batch_persist\<close> relate it to the two scripts.
\<close>

definition persist :: "product list \<Rightarrow> product list \<Rightarrow> int list \<Rightarrow> string \<Rightarrow> db \<Rightarrow> db" where
  "persist good errors error_ids msg d =
     \<lparr>tiki_queue =
        set_status ''error'' (Some msg) (\<lambda>i. i \<in> set error_ids)
          (set_status ''done'' None (\<lambda>i. i \<in> set (map id' good)) (tiki_queue d)),
      tiki_product = foldl upsert_row (tiki_product d) good,
      tiki_error = foldl upsert_row (tiki_error d) errors\<rparr>"

text \<open>The dictionaries a batch of \<open>main.py\<close> gets back, per id, and those it keeps as good.\<close>

definition main_outcome :: "env \<Rightarrow> int \<Rightarrow> product" where
  "main_outcome e pid =
     (case fst (main_attempts e pid [0..<RETRIES]) of Some r \<Rightarrow> r | None \<Rightarrow> failure_dict pid)"

text \<open>What a batch of \<open>tiki_queue.py\<close> gets back for one id: a dictionary, or a 404.\<close>

definition tiki_queue_good :: "env \<Rightarrow> int \<Rightarrow> product list" where
  "tiki_queue_good e pid =
     (case fst (tiki_queue_fetch_product e pid) of Inr (Some r) \<Rightarrow> [r] | _ \<Rightarrow> [])"

definition tiki_queue_not_found :: "env \<Rightarrow> int \<Rightarrow> int list" where
  "tiki_queue_not_found e pid =
     (case fst (tiki_queue_fetch_product e pid) of
        Inl (ProductNotFoundError p) \<Rightarrow> [p] | _ \<Rightarrow> [])"

text \<open>
  The invariant of the data model: every record of \<open>tiki_error\<close> has a row in the queue
  with the same id and status \<open>error\<close>. The second form also admits status \<open>done\<close>.
\<close>

definition error_rows_marked :: "db \<Rightarrow> bool" where
  "error_rows_marked d =
     list_all (\<lambda>r. list_ex (\<lambda>row. qid row = id' r \<and> status row = ''error'') (tiki_queue d))
       (tiki_error d)"

definition error_rows_settled :: "db \<Rightarrow> bool" where
  "error_rows_settled d =
     list_all (\<lambda>r. list_ex (\<lambda>row. qid row = id' r \<and>
                                    (status row = ''error'' \<or> status row = ''done''))
                       (tiki_queue d))
       (tiki_error d)"

text \<open>
  The record \<open>x\<close> is in \<open>tiki_error\<close>, its id is in the queue, and every queue row of
  its id has status \<open>error\<close> with the message \<open>msg\<close>.
\<close>

definition recorded :: "product \<Rightarrow> string \<Rightarrow> db \<Rightarrow> bool" where
  "recorded x msg d =
     (x \<in> set (tiki_error d) \<and> id' x \<in> qid ` set (tiki_queue d) \<and>
      list_all (\<lambda>row. qid row \<noteq> id' x \<or> (status row = ''error'' \<and> last_error row = Some msg))
        (tiki_queue d))"


text \<open>
  The states a sequence of runs can be in at the end of a batch when no run is stopped
  inside a batch, from a database with unique queue ids and no error record. A run may
  stop after any number of batches; the \<open>SELECT\<close> returns the selected ids, each
  once, in any order (\<open>pending_ids\<close>); the order in which tasks complete is any
  order of the batch.
\<close>

inductive main_uninterrupted :: "db \<Rightarrow> bool" where
  main_initial: "distinct (map qid (tiki_queue d)) \<Longrightarrow> tiki_error d = [] \<Longrightarrow> main_uninterrupted d"
| main_whole_batches:
    "main_uninterrupted d \<Longrightarrow> \<forall>b. set (sched e b) = set b \<Longrightarrow>
     d1 = d\<lparr>tiki_queue := main_init_queue (tiki_queue d) ids\<rparr> \<Longrightarrow>
     distinct pending_ids \<Longrightarrow> set pending_ids = set (fetch_pending_ids (tiki_queue d1)) \<Longrightarrow>
     main_batches e (take k (chunks BATCH_SIZE pending_ids)) d1 = Inr d' \<Longrightarrow>
     main_uninterrupted d'"

inductive tiki_queue_uninterrupted :: "db \<Rightarrow> bool" where
  tiki_queue_initial:
    "distinct (map qid (tiki_queue d)) \<Longrightarrow> tiki_error d = [] \<Longrightarrow> tiki_queue_uninterrupted d"
| tiki_queue_whole_batches:
    "tiki_queue_uninterrupted d \<Longrightarrow> \<forall>b. set (sched e b) = set b \<Longrightarrow>
     d1 = (if length (tiki_queue d) = 0
           then d\<lparr>tiki_queue := tiki_queue_init_queue (tiki_queue d) (dedup ids)\<rparr> else d) \<Longrightarrow>
     distinct pending_ids \<Longrightarrow>
     set pending_ids = set (fetch_pending_or_error_ids (tiki_queue d1)) \<Longrightarrow>
     d' = tiki_queue_batches e (take k (chunks BATCH_SIZE pending_ids)) d1 \<Longrightarrow>
     tiki_queue_uninterrupted d'"

text \<open>
  The \<open>try\<close> block of the attempt raises an exception that the handler of the loop
  catches and does not raise again: any exception in \<open>main.py\<close>, any exception other
  than \<open>ProductNotFoundError\<close> in \<open>tiki_queue.py\<close>.
\<close>

definition main_raises :: "env \<Rightarrow> int \<Rightarrow> nat \<Rightarrow> bool" where
  "main_raises e pid attempt =
     (case fst (main_attempt e pid attempt) of Inl ex \<Rightarrow> True | Inr fl \<Rightarrow> False)"

definition tiki_queue_raises :: "env \<Rightarrow> int \<Rightarrow> nat \<Rightarrow> bool" where
  "tiki_queue_raises e pid attempt =
     (case fst (tiki_queue_attempt e pid attempt) of
        Inl ex \<Rightarrow> (case ex of ProductNotFoundError p \<Rightarrow> False | _ \<Rightarrow> True)
      | Inr fl \<Rightarrow> False)"

section \<open>Runs that are stopped\<close>

text \<open>
  The four statements that end a batch. In \<open>main.py\<close> (lines 170 to 173) each one
  acquires a connection of the pool and is committed when it returns; in
  \<open>tiki_queue.py\<close> (lines 183 to 186) they run on one connection, outside any
  transaction. A statement is taken to be atomic.
\<close>

definition main_statements :: "product list \<Rightarrow> product list \<Rightarrow> (db \<Rightarrow> db) list" where
  "main_statements good error =
     [\<lambda>d. d\<lparr>tiki_product := insert_batch (tiki_product d) good\<rparr>,
      \<lambda>d. d\<lparr>tiki_error := insert_batch (tiki_error d) error\<rparr>,
      \<lambda>d. d\<lparr>tiki_queue := main_update_queue_status (tiki_queue d) (map id' good) ''done'' None\<rparr>,
      \<lambda>d. d\<lparr>tiki_queue := main_update_queue_status (tiki_queue d) (map id' error) ''error''
                              (Some ''Failed after retries'')\<rparr>]"

definition tiki_queue_statements ::
  "product list \<Rightarrow> product list \<Rightarrow> int list \<Rightarrow> (db \<Rightarrow> db) list" where
  "tiki_queue_statements good_records error_records error_ids =
     [\<lambda>d. d\<lparr>tiki_product := insert_batch_to_db (tiki_product d) good_records\<rparr>,
      \<lambda>d. d\<lparr>tiki_error := insert_batch_to_db (tiki_error d) error_records\<rparr>,
      \<lambda>d. d\<lparr>tiki_queue := tiki_queue_update_queue_status (tiki_queue d)
                              (map id' good_records) ''done'' None\<rparr>,
      \<lambda>d. d\<lparr>tiki_queue := tiki_queue_update_queue_status (tiki_queue d) error_ids ''error''
                              (Some ''404 Not Found'')\<rparr>]"

definition run_statements :: "(db \<Rightarrow> db) list \<Rightarrow> db \<Rightarrow> db" where
  "run_statements fs d = foldl (\<lambda>d' f. f d') d fs"

text \<open>
  The loop of \<open>main\<close> when the process is stopped in batch number \<open>k\<close> (counted
  from 0) after \<open>n\<close> of the four statements of that batch: the batches before it are
  processed in full, those after it are not started. A loop with at most \<open>k\<close> batches
  runs to its end. The lemmas \<open>main_stopped_never\<close> and \<open>tiki_queue_stopped_never\<close>
  relate these functions to the loops of the two scripts.
\<close>

fun main_stopped :: "env \<Rightarrow> int list list \<Rightarrow> nat \<Rightarrow> nat \<Rightarrow> db \<Rightarrow> py_exception + db" where
  "main_stopped e [] k n d = Inr d"
| "main_stopped e (batch # rest) k n d =
     (case main_process_batch e batch of
        Inl ex \<Rightarrow> Inl ex
      | Inr (good, error, retries) \<Rightarrow>
          (case k of
             0 \<Rightarrow> Inr (run_statements (take n (main_statements good error)) d)
           | Suc k' \<Rightarrow>
               main_stopped e rest k' n (run_statements (main_statements good error) d)))"

fun tiki_queue_stopped :: "env \<Rightarrow> int list list \<Rightarrow> nat \<Rightarrow> nat \<Rightarrow> db \<Rightarrow> db" where
  "tiki_queue_stopped e [] k n d = d"
| "tiki_queue_stopped e (batch_ids # rest) k n d =
     (case tiki_queue_route e (sched e batch_ids) ([], [], []) of
        (good_records, error_records, error_ids) \<Rightarrow>
          (case k of
             0 \<Rightarrow> run_statements
                    (take n (tiki_queue_statements good_records error_records error_ids)) d
           | Suc k' \<Rightarrow>
               tiki_queue_stopped e rest k' n
                 (run_statements (tiki_queue_statements good_records error_records error_ids) d)))"

text \<open>Every record of \<open>tiki_error\<close> has a row in the queue with the same id.\<close>

definition error_rows_queued :: "db \<Rightarrow> bool" where
  "error_rows_queued d =
     list_all (\<lambda>r. list_ex (\<lambda>row. qid row = id' r) (tiki_queue d)) (tiki_error d)"

text \<open>
  The states a sequence of runs can be in, from a database with unique queue ids and no
  error record, when each run may be stopped between any two statements. As above, the
  selected ids come in any order.
\<close>

inductive main_reachable :: "db \<Rightarrow> bool" where
  main_start: "distinct (map qid (tiki_queue d)) \<Longrightarrow> tiki_error d = [] \<Longrightarrow> main_reachable d"
| main_run:
    "main_reachable d \<Longrightarrow> \<forall>b. set (sched e b) = set b \<Longrightarrow>
     d1 = d\<lparr>tiki_queue := main_init_queue (tiki_queue d) ids\<rparr> \<Longrightarrow>
     distinct pending_ids \<Longrightarrow> set pending_ids = set (fetch_pending_ids (tiki_queue d1)) \<Longrightarrow>
     main_stopped e (chunks BATCH_SIZE pending_ids) k n d1 = Inr d' \<Longrightarrow>
     main_reachable d'"

inductive tiki_queue_reachable :: "db \<Rightarrow> bool" where
  tiki_queue_start:
    "distinct (map qid (tiki_queue d)) \<Longrightarrow> tiki_error d = [] \<Longrightarrow> tiki_queue_reachable d"
| tiki_queue_run:
    "tiki_queue_reachable d \<Longrightarrow> \<forall>b. set (sched e b) = set b \<Longrightarrow>
     d1 = (if length (tiki_queue d) = 0
           then d\<lparr>tiki_queue := tiki_queue_init_queue (tiki_queue d) (dedup ids)\<rparr> else d) \<Longrightarrow>
     distinct pending_ids \<Longrightarrow>
     set pending_ids = set (fetch_pending_or_error_ids (tiki_queue d1)) \<Longrightarrow>
     d' = tiki_queue_stopped e (chunks BATCH_SIZE pending_ids) k n d1 \<Longrightarrow>
     tiki_queue_reachable d'"

section \<open>Properties of the work queue\<close>

lemma set_dedup_aux:
  "set (foldl (\<lambda>acc x. if x \<in> set acc then acc else acc @ [x]) acc ids) = set acc \<union> set ids"
  by (induction ids arbitrary: acc) auto

lemma set_dedup: "set (dedup ids) = set ids"
  by (simp add: dedup_def set_dedup_aux)

lemma distinct_dedup_aux:
  "distinct acc \<Longrightarrow> distinct (foldl (\<lambda>acc x. if x \<in> set acc then acc else acc @ [x]) acc ids)"
  by (induction ids arbitrary: acc) auto

lemma distinct_dedup: "distinct (dedup ids)"
  by (simp add: dedup_def distinct_dedup_aux)

lemma insert_all_ids: "qid ` set (foldl insert_pending q ids) = qid ` set q \<union> set ids"
  by (induction ids arbitrary: q) (auto simp: insert_pending_def)

lemma insert_all_prefix:
  "\<exists>new. foldl insert_pending q ids = q @ new \<and>
     (\<forall>r\<in>set new. status r = ''pending'' \<and> last_error r = None \<and> qid r \<in> set ids \<and>
                    qid r \<notin> qid ` set q)"
proof (induction ids arbitrary: q)
  case Nil
  then show ?case by simp
next
  case (Cons a ids)
  show ?case
  proof (cases "a \<in> qid ` set q")
    case True
    with Cons.IH [of q] show ?thesis by (auto simp: insert_pending_def)
  next
    case False
    let ?row = "\<lparr>qid = a, status = ''pending'', last_error = None\<rparr>"
    from Cons.IH [of "q @ [?row]"]
    obtain new where n: "foldl insert_pending (q @ [?row]) ids = (q @ [?row]) @ new"
      and p: "\<forall>r\<in>set new. status r = ''pending'' \<and> last_error r = None \<and> qid r \<in> set ids
           \<and> qid r \<notin> qid ` set (q @ [?row])"
      by blast
    have "foldl insert_pending q (a # ids) = q @ (?row # new)"
      using False n by (simp add: insert_pending_def)
    moreover have "\<forall>r\<in>set (?row # new).
        status r = ''pending'' \<and> last_error r = None \<and> qid r \<in> set (a # ids) \<and> qid r \<notin> qid ` set q"
      using False p by auto
    ultimately show ?thesis by blast
  qed
qed

lemma insert_all_noop: "set ids \<subseteq> qid ` set q \<Longrightarrow> foldl insert_pending q ids = q"
  by (induction ids arbitrary: q) (auto simp: insert_pending_def)

lemma insert_all_distinct:
  "distinct (map qid q) \<Longrightarrow> distinct (map qid (foldl insert_pending q ids))"
  by (induction ids arbitrary: q) (auto simp: insert_pending_def)

lemma insert_all_length:
  "length (foldl insert_pending q ids) = length q + card (set ids - qid ` set q)"
proof (induction ids arbitrary: q)
  case Nil
  then show ?case by simp
next
  case (Cons a ids)
  show ?case
  proof (cases "a \<in> qid ` set q")
    case True
    then have "set (a # ids) - qid ` set q = set ids - qid ` set q" by auto
    with True Cons.IH [of q] show ?thesis by (simp add: insert_pending_def)
  next
    case False
    let ?q = "q @ [\<lparr>qid = a, status = ''pending'', last_error = None\<rparr>]"
    have s: "set (a # ids) - qid ` set q = insert a (set ids - qid ` set ?q)"
      using False by auto
    have "a \<notin> set ids - qid ` set ?q" by simp
    then have "card (set (a # ids) - qid ` set q) = Suc (card (set ids - qid ` set ?q))"
      unfolding s by simp
    with False Cons.IH [of ?q] show ?thesis by (simp add: insert_pending_def)
  qed
qed

lemma insert_all_spec:
  "\<exists>new. foldl insert_pending q ids = q @ new \<and> length new = card (set ids - qid ` set q) \<and>
     (\<forall>r\<in>set new. status r = ''pending'' \<and> last_error r = None \<and> qid r \<in> set ids \<and>
                    qid r \<notin> qid ` set q)"
proof -
  obtain new where n: "foldl insert_pending q ids = q @ new"
    and p: "\<forall>r\<in>set new. status r = ''pending'' \<and> last_error r = None \<and> qid r \<in> set ids \<and>
                          qid r \<notin> qid ` set q"
    using insert_all_prefix [of q ids] by blast
  have "length (q @ new) = length q + card (set ids - qid ` set q)"
    using insert_all_length [of q ids] n by simp
  then have "length new = card (set ids - qid ` set q)" by simp
  with n p show ?thesis by blast
qed

lemma init_queue_cases:
  assumes "init = main_init_queue \<or> init = tiki_queue_init_queue"
  obtains ids' where "init q ids = foldl insert_pending q ids'" "set ids' = set ids"
  using assms by (auto simp: main_init_queue_def tiki_queue_init_queue_def set_dedup)

text \<open>
  C1 (as amended). The selection of \<open>tiki_queue.py\<close> returns exactly the ids whose
  status is \<open>pending\<close> or \<open>error\<close>; the selection of \<open>main.py\<close> returns exactly
  the ids whose status is \<open>pending\<close>, so it leaves ids with status \<open>error\<close> out.
  With the ids of the queue distinct (the primary key), neither selection returns an id
  whose status is \<open>done\<close>.
\<close>

theorem C1_outstanding_selection:
  "set (fetch_pending_or_error_ids q) =
     {i. \<exists>r\<in>set q. qid r = i \<and> (status r = ''pending'' \<or> status r = ''error'')}
   \<and> set (fetch_pending_ids q) = {i. \<exists>r\<in>set q. qid r = i \<and> status r = ''pending''}
   \<and> (distinct (map qid q) \<longrightarrow>
        (\<forall>r\<in>set q. status r = ''done'' \<longrightarrow>
           qid r \<notin> set (fetch_pending_or_error_ids q) \<and>
           qid r \<notin> set (fetch_pending_ids q)))"
proof -
  have a: "set (fetch_pending_or_error_ids q) =
     {i. \<exists>r\<in>set q. qid r = i \<and> (status r = ''pending'' \<or> status r = ''error'')}"
    by (auto simp: fetch_pending_or_error_ids_def)
  have b: "set (fetch_pending_ids q) = {i. \<exists>r\<in>set q. qid r = i \<and> status r = ''pending''}"
    by (auto simp: fetch_pending_ids_def)
  have c: "qid r \<notin> set (fetch_pending_or_error_ids q) \<and> qid r \<notin> set (fetch_pending_ids q)"
    if d: "distinct (map qid q)" and r: "r \<in> set q" and s: "status r = ''done''" for r
  proof -
    have u: "r' = r" if "r' \<in> set q" "qid r' = qid r" for r'
      using d r that by (meson distinct_map inj_onD)
    have "status r' = ''done''" if "r' \<in> set q" "qid r' = qid r" for r'
      using u [OF that] s by simp
    then show ?thesis unfolding a b by fastforce
  qed
  show ?thesis using a b c by blast
qed

theorem C1_outstanding_selection_witness:
  "distinct (map qid [\<lparr>qid = 1, status = ''done'', last_error = None\<rparr>,
                      \<lparr>qid = 2, status = ''error'', last_error = Some ''404 Not Found''\<rparr>,
                      \<lparr>qid = 3, status = ''pending'', last_error = None\<rparr>])
   \<and> 1 \<notin> set (fetch_pending_or_error_ids
        [\<lparr>qid = 1, status = ''done'', last_error = None\<rparr>,
         \<lparr>qid = 2, status = ''error'', last_error = Some ''404 Not Found''\<rparr>,
         \<lparr>qid = 3, status = ''pending'', last_error = None\<rparr>])
   \<and> 1 \<notin> set (fetch_pending_ids
        [\<lparr>qid = 1, status = ''done'', last_error = None\<rparr>,
         \<lparr>qid = 2, status = ''error'', last_error = Some ''404 Not Found''\<rparr>,
         \<lparr>qid = 3, status = ''pending'', last_error = None\<rparr>])"
  using C1_outstanding_selection
          [of "[\<lparr>qid = 1, status = ''done'', last_error = None\<rparr>,
                \<lparr>qid = 2, status = ''error'', last_error = Some ''404 Not Found''\<rparr>,
                \<lparr>qid = 3, status = ''pending'', last_error = None\<rparr>]"]
  by simp

text \<open>
  Against C1 as stated: in \<open>main.py\<close> a row with status \<open>error\<close> is not selected.
\<close>

theorem C1_main_skips_error_rows:
  "status \<lparr>qid = 2, status = ''error'', last_error = Some ''Failed after retries''\<rparr> = ''error''
   \<and> qid \<lparr>qid = 2, status = ''error'', last_error = Some ''Failed after retries''\<rparr>
       \<notin> set (fetch_pending_ids
                [\<lparr>qid = 2, status = ''error'', last_error = Some ''Failed after retries''\<rparr>])"
  by (simp add: fetch_pending_ids_def)

text \<open>
  C7 (as amended). In both scripts, initialising the queue keeps every existing row as
  it is and appends one row with status \<open>pending\<close> for each id that was absent; it
  changes nothing when every id is present; calling it again with the same ids changes
  nothing, so row count and statuses stay; calling it again with a superset keeps the
  existing rows and their statuses and appends one \<open>pending\<close> row per new id, so the
  row count grows by the number of new ids.
\<close>

theorem C7_init_queue_idempotent:
  assumes "init = main_init_queue \<or> init = tiki_queue_init_queue"
  shows "(\<exists>new. init q ids = q @ new \<and> length new = card (set ids - qid ` set q) \<and>
            (\<forall>r\<in>set new. status r = ''pending'' \<and> qid r \<in> set ids \<and> qid r \<notin> qid ` set q))
       \<and> qid ` set (init q ids) = qid ` set q \<union> set ids
       \<and> (set ids \<subseteq> qid ` set q \<longrightarrow> init q ids = q)
       \<and> init (init q ids) ids = init q ids
       \<and> (set ids \<subseteq> set ids' \<longrightarrow>
            (\<exists>new. init (init q ids) ids' = init q ids @ new \<and>
                   length new = card (set ids' - (qid ` set q \<union> set ids)) \<and>
                   (\<forall>r\<in>set new. status r = ''pending'' \<and> qid r \<in> set ids' \<and>
                                  qid r \<notin> qid ` set q \<union> set ids)))"
proof -
  have spec: "\<exists>new. init q ids = q @ new \<and> length new = card (set ids - qid ` set q) \<and>
            (\<forall>r\<in>set new. status r = ''pending'' \<and> qid r \<in> set ids \<and> qid r \<notin> qid ` set q)"
    for q ids
  proof -
    obtain xs where x: "init q ids = foldl insert_pending q xs" "set xs = set ids"
      using init_queue_cases [OF assms] by blast
    show ?thesis using insert_all_spec [of q xs] unfolding x by blast
  qed
  have ids: "qid ` set (init q ids) = qid ` set q \<union> set ids" for q ids
  proof -
    obtain xs where x: "init q ids = foldl insert_pending q xs" "set xs = set ids"
      using init_queue_cases [OF assms] by blast
    show ?thesis using insert_all_ids [of q xs] unfolding x by simp
  qed
  have noop: "init q ids = q" if "set ids \<subseteq> qid ` set q" for q ids
  proof -
    obtain xs where x: "init q ids = foldl insert_pending q xs" "set xs = set ids"
      using init_queue_cases [OF assms] by blast
    show ?thesis using insert_all_noop [of xs q] that unfolding x by simp
  qed
  have idem: "init (init q ids) ids = init q ids"
    by (rule noop) (simp add: ids)
  have sup: "\<exists>new. init (init q ids) ids' = init q ids @ new \<and>
                   length new = card (set ids' - (qid ` set q \<union> set ids)) \<and>
                   (\<forall>r\<in>set new. status r = ''pending'' \<and> qid r \<in> set ids' \<and>
                                  qid r \<notin> qid ` set q \<union> set ids)"
    using spec [of "init q ids" ids'] unfolding ids by blast
  show ?thesis using spec ids noop idem sup by blast
qed

theorem C7_init_queue_idempotent_witness:
  "(main_init_queue = main_init_queue \<or> main_init_queue = tiki_queue_init_queue)
   \<and> set [7::int] \<subseteq> set [7, 8]
   \<and> set [7::int] \<subseteq> qid ` set (main_init_queue [] [7])
   \<and> main_init_queue (main_init_queue [] [7]) [7] = main_init_queue [] [7]
   \<and> (\<exists>new. main_init_queue (main_init_queue [] [7]) [7, 8] = main_init_queue [] [7] @ new
         \<and> length new = card (set [7, 8] - (qid ` set [] \<union> set [7::int])))"
  using C7_init_queue_idempotent [of main_init_queue "[]" "[7]" "[7, 8]"]
  by auto

text \<open>
  Against C7 as stated: a second call with a superset of the ids changes the row count.
\<close>

theorem C7_superset_changes_row_count:
  "length (tiki_queue_init_queue (tiki_queue_init_queue [] [7]) [7, 8])
     \<noteq> length (tiki_queue_init_queue [] [7])"
  by (simp add: tiki_queue_init_queue_def insert_pending_def)

section \<open>Properties of the batch upsert\<close>

lemma upsert_row_ids: "id' ` set (upsert_row t r) = insert (id' r) (id' ` set t)"
  by (auto simp: upsert_row_def image_iff)

lemma upsert_all_ids: "id' ` set (foldl upsert_row t rs) = id' ` set t \<union> id' ` set rs"
  by (induction rs arbitrary: t) (auto simp: upsert_row_ids)

lemma replace_keeps_ids:
  "map id' (map (\<lambda>x. if id' x = id' r then r else x) t) = map id' t"
  by (induction t) auto

lemma upsert_row_distinct: "distinct (map id' t) \<Longrightarrow> distinct (map id' (upsert_row t r))"
proof (cases "id' r \<in> id' ` set t")
  case True
  assume "distinct (map id' t)"
  then show ?thesis using True replace_keeps_ids [of r t] by (simp add: upsert_row_def del: map_map)
next
  case False
  assume "distinct (map id' t)"
  then show ?thesis using False by (simp add: upsert_row_def)
qed

lemma upsert_all_distinct: "distinct (map id' t) \<Longrightarrow> distinct (map id' (foldl upsert_row t rs))"
  by (induction rs arbitrary: t) (auto simp: upsert_row_distinct)

lemma upsert_row_member:
  "x \<in> set (upsert_row t r) \<Longrightarrow> x = r \<or> (x \<in> set t \<and> id' x \<noteq> id' r)"
proof (cases "id' r \<in> id' ` set t")
  case True
  assume "x \<in> set (upsert_row t r)"
  with True show ?thesis by (auto simp: upsert_row_def split: if_splits)
next
  case False
  assume "x \<in> set (upsert_row t r)"
  with False have "x = r \<or> x \<in> set t" by (simp add: upsert_row_def)
  moreover have "id' x \<noteq> id' r" if "x \<in> set t" using False that by (metis imageI)
  ultimately show ?thesis by blast
qed

lemma upsert_all_last:
  "x \<in> set (foldl upsert_row t rs) \<Longrightarrow> id' x \<in> id' ` set rs \<Longrightarrow>
     find (\<lambda>r. id' r = id' x) (rev rs) = Some x"
proof (induction rs arbitrary: x rule: rev_induct)
  case Nil
  then show ?case by simp
next
  case (snoc r rs)
  from snoc.prems(1) have "x \<in> set (upsert_row (foldl upsert_row t rs) r)" by simp
  then consider "x = r" | "x \<in> set (foldl upsert_row t rs)" "id' x \<noteq> id' r"
    using upsert_row_member by blast
  then show ?case
  proof cases
    case 1
    then show ?thesis by simp
  next
    case 2
    with snoc.prems(2) have "id' x \<in> id' ` set rs" by auto
    with snoc.IH 2 show ?thesis by auto
  qed
qed

lemma find_id: "find (\<lambda>r. id' r = i) rs = Some y \<Longrightarrow> id' y = i"
  by (induction rs) (auto split: if_splits)

lemma upsert_all_present:
  "id' ` set rs \<subseteq> id' ` set t \<Longrightarrow>
     foldl upsert_row t rs =
       map (\<lambda>x. case find (\<lambda>r. id' r = id' x) (rev rs) of None \<Rightarrow> x | Some r \<Rightarrow> r) t"
proof (induction rs rule: rev_induct)
  case Nil
  then show ?case by simp
next
  case (snoc r rs)
  let ?G = "\<lambda>x. case find (\<lambda>r. id' r = id' x) (rev rs) of None \<Rightarrow> x | Some r \<Rightarrow> r"
  have ih: "foldl upsert_row t rs = map ?G t" using snoc by simp
  have g: "id' (?G x) = id' x" for x
    by (auto split: option.splits dest: find_id)
  have "map id' (map ?G t) = map id' t" using g by (induction t) auto
  then have "id' ` set (map ?G t) = id' ` set t" by (metis set_map)
  moreover have "id' r \<in> id' ` set t" using snoc.prems by auto
  ultimately have "id' r \<in> id' ` set (map ?G t)" by simp
  then have "upsert_row (map ?G t) r = map (\<lambda>x. if id' x = id' r then r else x) (map ?G t)"
    by (simp add: upsert_row_def del: map_map set_map)
  also have "\<dots> = map (\<lambda>x. case find (\<lambda>r. id' r = id' x) (rev (rs @ [r])) of None \<Rightarrow> x | Some r \<Rightarrow> r) t"
    using g by (auto split: option.splits)
  finally show ?case using ih by simp
qed

lemma upsert_all_idem: "foldl upsert_row (foldl upsert_row t rs) rs = foldl upsert_row t rs"
proof -
  let ?T = "foldl upsert_row t rs"
  have "id' ` set rs \<subseteq> id' ` set ?T" by (simp add: upsert_all_ids)
  then have "foldl upsert_row ?T rs =
      map (\<lambda>x. case find (\<lambda>r. id' r = id' x) (rev rs) of None \<Rightarrow> x | Some r \<Rightarrow> r) ?T"
    by (rule upsert_all_present)
  also have "\<dots> = ?T"
  proof (rule map_idI)
    fix x assume x: "x \<in> set ?T"
    show "(case find (\<lambda>r. id' r = id' x) (rev rs) of None \<Rightarrow> x | Some r \<Rightarrow> r) = x"
    proof (cases "id' x \<in> id' ` set rs")
      case True
      with x show ?thesis by (simp add: upsert_all_last)
    next
      case False
      then have "\<And>y. y \<in> set rs \<Longrightarrow> id' y \<noteq> id' x" by (metis imageI)
      then have "find (\<lambda>r. id' r = id' x) (rev rs) = None"
        by (simp add: find_None_iff)
      then show ?thesis by simp
    qed
  qed
  finally show ?thesis .
qed

lemma filter_key_distinct:
  "distinct (map f xs) \<Longrightarrow> x \<in> set xs \<Longrightarrow> filter (\<lambda>y. f y = f x) xs = [x]"
proof (induction xs)
  case Nil
  then show ?case by simp
next
  case (Cons a xs)
  show ?case
  proof (cases "x = a")
    case True
    have "f y \<noteq> f a" if "y \<in> set xs" for y using Cons.prems(1) that by (metis distinct.simps(2) imageI list.simps(9) set_map)
    then have "filter (\<lambda>y. f y = f a) xs = []" by (simp add: filter_empty_conv)
    with True show ?thesis by simp
  next
    case False
    with Cons.prems have x: "x \<in> set xs" by simp
    have "f a \<noteq> f x" using Cons.prems(1) x by (metis distinct.simps(2) imageI list.simps(9) set_map)
    with Cons x show ?thesis by simp
  qed
qed

lemma upsert_all_one_row:
  assumes "distinct (map id' t)" "r \<in> set rs"
  shows "\<exists>x. filter (\<lambda>y. id' y = id' r) (foldl upsert_row t rs) = [x] \<and>
            find (\<lambda>y. id' y = id' r) (rev rs) = Some x"
proof -
  let ?T = "foldl upsert_row t rs"
  have d: "distinct (map id' ?T)" using assms(1) by (rule upsert_all_distinct)
  have "id' r \<in> id' ` set ?T" using assms(2) by (simp add: upsert_all_ids)
  then obtain x where x: "x \<in> set ?T" "id' x = id' r" by auto
  have "filter (\<lambda>y. id' y = id' x) ?T = [x]"
    using d x(1) by (rule filter_key_distinct)
  moreover have "find (\<lambda>y. id' y = id' x) (rev rs) = Some x"
    using x assms(2) by (intro upsert_all_last) auto
  ultimately show ?thesis using x(2) by auto
qed


lemma insert_batch_cases:
  assumes "ins = insert_batch \<or> ins = insert_batch_to_db"
  shows "ins t rs = foldl upsert_row t rs"
  using assms by (auto simp: insert_batch_def insert_batch_to_db_def)

text \<open>
  C6. In both scripts the batch upsert leaves the table as it is for an empty batch;
  persisting a batch a second time changes nothing; the table then holds the ids it had
  and the ids of the batch, each id once; the one row of an id of the batch holds the
  values of the last record the batch has for it; on a conflict the whole row is
  replaced by the new record and no other row changes; a new id is appended.
\<close>

theorem C6_upsert:
  assumes "ins = insert_batch \<or> ins = insert_batch_to_db"
  shows "ins t [] = t
     \<and> ins (ins t rs) rs = ins t rs
     \<and> id' ` set (ins t rs) = id' ` set t \<union> id' ` set rs
     \<and> (distinct (map id' t) \<longrightarrow> distinct (map id' (ins t rs)))
     \<and> (distinct (map id' t) \<and> r \<in> set rs \<longrightarrow>
          (\<exists>x. filter (\<lambda>y. id' y = id' r) (ins t rs) = [x] \<and>
               find (\<lambda>y. id' y = id' r) (rev rs) = Some x))
     \<and> (id' r \<in> id' ` set t \<longrightarrow> ins t [r] = map (\<lambda>x. if id' x = id' r then r else x) t)
     \<and> (id' r \<notin> id' ` set t \<longrightarrow> ins t [r] = t @ [r])
     \<and> (distinct (map id' t) \<and> id' r2 = id' r \<longrightarrow>
          filter (\<lambda>y. id' y = id' r) (ins (ins t [r]) [r2]) = [r2])"
proof -
  note i = insert_batch_cases [OF assms]
  have 1: "ins t [] = t" by (simp add: i)
  have 2: "ins (ins t rs) rs = ins t rs" by (simp add: i upsert_all_idem)
  have 3: "id' ` set (ins t rs) = id' ` set t \<union> id' ` set rs" by (simp add: i upsert_all_ids)
  have 4: "distinct (map id' t) \<longrightarrow> distinct (map id' (ins t rs))"
    by (simp add: i upsert_all_distinct)
  have 5: "distinct (map id' t) \<and> r \<in> set rs \<longrightarrow>
          (\<exists>x. filter (\<lambda>y. id' y = id' r) (ins t rs) = [x] \<and>
               find (\<lambda>y. id' y = id' r) (rev rs) = Some x)"
    using upsert_all_one_row [of t r rs] by (simp add: i)
  have 6: "id' r \<in> id' ` set t \<longrightarrow> ins t [r] = map (\<lambda>x. if id' x = id' r then r else x) t"
    by (simp add: i upsert_row_def)
  have 7: "id' r \<notin> id' ` set t \<longrightarrow> ins t [r] = t @ [r]"
    by (simp add: i upsert_row_def)
  have 8: "filter (\<lambda>y. id' y = id' r) (ins (ins t [r]) [r2]) = [r2]"
    if d: "distinct (map id' t)" and e: "id' r2 = id' r"
  proof -
    have "\<exists>x. filter (\<lambda>y. id' y = id' r2) (foldl upsert_row t [r, r2]) = [x] \<and>
            find (\<lambda>y. id' y = id' r2) (rev [r, r2]) = Some x"
      using d by (intro upsert_all_one_row) auto
    then have "filter (\<lambda>y. id' y = id' r2) (foldl upsert_row t [r, r2]) = [r2]" by auto
    then show ?thesis using e by (simp add: i)
  qed
  show ?thesis using 1 2 3 4 5 6 7 8 by blast
qed

theorem C6_upsert_witness:
  "(insert_batch = insert_batch \<or> insert_batch = insert_batch_to_db)
   \<and> distinct (map id' [failure_dict 1])
   \<and> not_found_record 1 \<in> set [not_found_record 1]
   \<and> id' (not_found_record 1) \<in> id' ` set [failure_dict 1]
   \<and> id' (not_found_record 1) \<notin> id' ` set []
   \<and> id' (not_found_record 1) = id' (not_found_record 1)
   \<and> insert_batch [failure_dict 1] [not_found_record 1] = [not_found_record 1]
   \<and> insert_batch [] [not_found_record 1] = [] @ [not_found_record 1]
   \<and> filter (\<lambda>y. id' y = id' (not_found_record 1))
        (insert_batch (insert_batch [failure_dict 1] [not_found_record 1])
           [not_found_record 1]) = [not_found_record 1]"
  using C6_upsert [of insert_batch "[failure_dict 1]" "[not_found_record 1]"
                      "not_found_record 1" "not_found_record 1"]
        C6_upsert [of insert_batch "[]" "[not_found_record 1]"
                      "not_found_record 1" "not_found_record 1"]
  by (simp add: failure_dict_def not_found_record_def insert_batch_def upsert_row_def)

section \<open>Properties of fetching one product\<close>

lemma ebind_Inr: "ebind m f = Inr y \<Longrightarrow> \<exists>x. m = Inr x \<and> f x = Inr y"
  by (cases m) (auto simp: ebind_def)

lemma result_dict_shape:
  assumes "result_dict clean pid data = Inr r"
  shows "id' r = pid \<and> (\<exists>s. name r = PStr s) \<and> (\<exists>s. description r = PStr s) \<and>
         missing_fields r = PNone"
proof -
  from assms obtain n' u p d' i where
    "r = \<lparr>id' = pid, name = PStr n', url_key = u, price = p, description = PStr d',
          image_url = i, missing_fields = PNone\<rparr>"
    unfolding result_dict_def by (auto dest!: ebind_Inr)
  then show ?thesis by simp
qed

lemma main_result_shape:
  assumes "main_result pid data = Inr r"
  shows "id' r = pid \<and> (\<exists>s. name r = PStr s) \<and> (\<exists>s. description r = PStr s) \<and>
         (\<exists>s. missing_fields r = PStr s)"
proof -
  from assms obtain r0 where r0: "result_dict main_clean_text pid data = Inr r0"
    and r: "r = with_missing (main_missing r0) r0"
    unfolding main_result_def by (auto dest!: ebind_Inr)
  from result_dict_shape [OF r0] show ?thesis unfolding r with_missing_def by auto
qed

lemma tiki_queue_result_shape:
  assumes "tiki_queue_result e pid data = Inr r"
  shows "id' r = pid \<and> (\<exists>s. name r = PStr s) \<and> (\<exists>s. description r = PStr s) \<and>
         (\<exists>s. missing_fields r = PStr s)"
proof -
  from assms obtain r0 where r0: "result_dict (tiki_queue_clean_text e) pid data = Inr r0"
    and r: "r = with_missing (tiki_queue_missing r0) r0"
    unfolding tiki_queue_result_def by (auto dest!: ebind_Inr)
  from result_dict_shape [OF r0] show ?thesis unfolding r with_missing_def by auto
qed

lemma main_attempt_Return:
  "main_attempt e pid a = (Inr (Return r), tr) \<Longrightarrow> \<exists>data. main_result pid data = Inr r"
  by (auto simp: main_attempt_def split: response.splits if_splits option.splits sum.splits)

lemma main_attempts_Some:
  "fst (main_attempts e pid as) = Some r \<Longrightarrow> \<exists>data. main_result pid data = Inr r"
proof (induction as)
  case Nil
  then show ?case by simp
next
  case (Cons a as)
  obtain x tr where x: "main_attempt e pid a = (x, tr)" by (cases "main_attempt e pid a")
  show ?case
  proof (cases x)
    case (Inl ex)
    with Cons x show ?thesis by simp
  next
    case (Inr fl)
    with Cons x show ?thesis
      by (cases fl) (auto dest: main_attempt_Return)
  qed
qed

lemma main_fetch_product_eq:
  "main_fetch_product e pid rc =
     Inr (case fst (main_attempts e pid [0..<RETRIES]) of Some r \<Rightarrow> r | None \<Rightarrow> failure_dict pid,
          case fst (main_attempts e pid [0..<RETRIES]) of Some r \<Rightarrow> rc
            | None \<Rightarrow> rc(pid \<mapsto> (case rc pid of None \<Rightarrow> 0 | Some n \<Rightarrow> n) + 1),
          snd (main_attempts e pid [0..<RETRIES]))"
  by (cases "main_attempts e pid [0..<RETRIES]") (auto simp: main_fetch_product_def split: option.splits)

text \<open>
  C10. In \<open>main.py\<close>, \<open>fetch_product\<close> always returns a dictionary (no exception
  reaches the caller), the dictionary's id is the id it was called with, and when the loop
  ends without a result every other field is \<open>None\<close>.
\<close>

theorem C10_main_fetch_product_total:
  "\<exists>r rc' tr. main_fetch_product e pid rc = Inr (r, rc', tr) \<and> id' r = pid \<and>
     (fst (main_attempts e pid [0..<RETRIES]) = None \<longrightarrow>
        name r = PNone \<and> url_key r = PNone \<and> price r = PNone \<and> description r = PNone \<and>
        image_url r = PNone \<and> missing_fields r = PNone)"
proof (cases "fst (main_attempts e pid [0..<RETRIES])")
  case None
  then show ?thesis by (simp add: main_fetch_product_eq failure_dict_def)
next
  case (Some r)
  then obtain data where "main_result pid data = Inr r" using main_attempts_Some by blast
  then have "id' r = pid" using main_result_shape by blast
  with Some show ?thesis by (simp add: main_fetch_product_eq)
qed

lemma all_none_iff:
  "all_none r \<longleftrightarrow> name r = PNone \<and> url_key r = PNone \<and> price r = PNone \<and>
     description r = PNone \<and> image_url r = PNone \<and> missing_fields r = PNone"
  by (simp add: all_none_def FIELDS_def subscript_def items_def)

lemma main_result_not_all_none: "main_result pid data = Inr r \<Longrightarrow> \<not> all_none r"
  using main_result_shape [of pid data r] by (auto simp: all_none_iff)

text \<open>
  In \<open>main.py\<close> the missing fields are the names of the fields other than the id whose
  value is \<open>None\<close> or the empty string, in the order of the dictionary, joined by commas.
\<close>

lemma main_missing_fields_spec:
  assumes "main_result pid data = Inr r"
  shows "missing_fields r = PStr (join '','' (map fst (filter (\<lambda>(k, v). v = PNone \<or> v = PStr [])
           [(''name'', name r), (''url_key'', url_key r), (''price'', price r),
            (''description'', description r), (''image_url'', image_url r)])))"
proof -
  from assms obtain r0 where r0: "result_dict main_clean_text pid data = Inr r0"
    and r: "r = with_missing (main_missing r0) r0"
    unfolding main_result_def by (auto dest!: ebind_Inr)
  show ?thesis unfolding r by (simp add: with_missing_def main_missing_def items_def)
qed

lemma attempts_main: "[0..<RETRIES] = [0, 1, 2, 3, 4]"
  by (simp add: RETRIES_def upt_rec)

lemma attempts_tiki_queue: "[1..<RETRIES + 1] = [1, 2, 3, 4, 5]"
  by (simp add: RETRIES_def upt_rec)

theorem C10_main_fetch_product_total_witness:
  "fst (main_attempts (scenario (\<lambda>pid k. TransportFailure)) 7 [0..<RETRIES]) = None
   \<and> (\<exists>r rc' tr. main_fetch_product (scenario (\<lambda>pid k. TransportFailure)) 7 Map.empty
                      = Inr (r, rc', tr)
         \<and> id' r = 7 \<and> name r = PNone \<and> missing_fields r = PNone)"
  using C10_main_fetch_product_total [of "scenario (\<lambda>pid k. TransportFailure)" 7 Map.empty]
  unfolding attempts_main by (auto simp: main_attempt_def scenario_def)

text \<open>
  C8, at a payload with every field present and a price of 0: the first request of
  \<open>tiki_queue.py\<close> succeeds, and the record it returns lists \<open>price\<close> as
  missing, since \<open>not v\<close> holds for 0.
\<close>

theorem C8_tiki_queue_zero_price_missing:
  "tiki_queue_fetch_product (scenario (\<lambda>pid k. Response 200 (Some free_product))) 7 =
     (Inr (Some \<lparr>id' = 7, name = PStr ''a'', url_key = PStr ''k'', price = PInt 0,
                 description = PStr ''d'', image_url = PStr ''u'',
                 missing_fields = PStr ''price''\<rparr>),
      [Request 1])"
  unfolding tiki_queue_fetch_product_def attempts_tiki_queue
  by (simp add: tiki_queue_attempt_def scenario_def free_product_def
      tiki_queue_result_def result_dict_def ebind_def tiki_queue_clean_text_def
      first_image_def with_missing_def tiki_queue_missing_def items_def)

text \<open>
  At a payload with a price of 0 and neither name nor description, from which
  \<open>main.py\<close> does build a dictionary: \<open>main.py\<close> lists the two empty strings and
  not the price, \<open>tiki_queue.py\<close> lists the price as well.
\<close>

lemma main_zero_price_not_missing:
  "main_fetch_product
     (scenario (\<lambda>pid k. Response 200 (Some (PDict [(''url_key'', PStr ''k''), (''price'', PInt 0),
        (''images'', PList [PDict [(''base_url'', PStr ''u'')]])])))) 7 Map.empty =
     Inr (\<lparr>id' = 7, name = PStr [], url_key = PStr ''k'', price = PInt 0,
           description = PStr [], image_url = PStr ''u'',
           missing_fields = PStr ''name,description''\<rparr>,
          Map.empty, [Request 0])
   \<and> tiki_queue_fetch_product
     (scenario (\<lambda>pid k. Response 200 (Some (PDict [(''url_key'', PStr ''k''), (''price'', PInt 0),
        (''images'', PList [PDict [(''base_url'', PStr ''u'')]])])))) 7 =
     (Inr (Some \<lparr>id' = 7, name = PStr [], url_key = PStr ''k'', price = PInt 0,
                 description = PStr [], image_url = PStr ''u'',
                 missing_fields = PStr ''name,price,description''\<rparr>),
      [Request 1])"
  unfolding tiki_queue_fetch_product_def main_fetch_product_def attempts_main attempts_tiki_queue
  by (simp add: tiki_queue_attempt_def main_attempt_def scenario_def
      tiki_queue_result_def main_result_def result_dict_def ebind_def tiki_queue_clean_text_def
      main_clean_text_def first_image_def with_missing_def tiki_queue_missing_def
      main_missing_def items_def)

section \<open>Properties of the retry loops\<close>


lemma sleeps_append: "sleeps (xs @ ys) = sleeps xs @ sleeps ys"
  by (induction xs rule: sleeps.induct) auto

lemma requests_append: "requests (xs @ ys) = requests xs @ requests ys"
  by (induction xs rule: requests.induct) auto

lemma transient_status_not_200_404: "transient_status st \<Longrightarrow> st \<noteq> 200 \<and> st \<noteq> 404"
  by (auto simp: transient_status_def)

lemma tiki_queue_attempts_transient:
  assumes "transient (remote e pid (a - 1))"
  shows "tiki_queue_attempts e pid (a # rest) =
           (fst (tiki_queue_attempts e pid rest),
            [Request a, Sleep (2 * a)] @ snd (tiki_queue_attempts e pid rest))"
proof (cases "remote e pid (a - 1)")
  case (Response st body)
  with assms have "transient_status st" by simp
  with Response show ?thesis
    using transient_status_not_200_404 [of st] by (simp add: tiki_queue_attempt_def)
next
  case TransportFailure
  then show ?thesis by (simp add: tiki_queue_attempt_def)
qed

lemma tiki_queue_attempts_backoff:
  assumes "\<forall>a\<in>set xs. transient (remote e pid (a - 1))"
  shows "tiki_queue_attempts e pid (xs @ ys) =
           (fst (tiki_queue_attempts e pid ys),
            concat (map (\<lambda>a. [Request a, Sleep (2 * a)]) xs) @ snd (tiki_queue_attempts e pid ys))"
  using assms
proof (induction xs)
  case Nil
  then show ?case by simp
next
  case (Cons a xs)
  then have "transient (remote e pid (a - 1))" by simp
  from tiki_queue_attempts_transient [OF this, of "xs @ ys"] Cons
  show ?case by (simp del: tiki_queue_attempts.simps)
qed

lemma tiki_queue_attempts_other:
  assumes "other_status (remote e pid (a - 1))"
  shows "tiki_queue_attempts e pid (a # rest) = (Inr None, [Request a])"
proof (cases "remote e pid (a - 1)")
  case (Response st body)
  with assms show ?thesis by (simp add: tiki_queue_attempt_def)
next
  case TransportFailure
  with assms show ?thesis by simp
qed

lemma tiki_queue_attempts_404:
  assumes "remote e pid (a - 1) = Response 404 body"
  shows "tiki_queue_attempts e pid (a # rest) = (Inl (ProductNotFoundError pid), [Request a])"
  using assms by (simp add: tiki_queue_attempt_def)

lemma tiki_queue_attempt_trace:
  "snd (tiki_queue_attempt e pid a) = [Request a] \<or>
   snd (tiki_queue_attempt e pid a) = [Request a, Sleep (2 * a)]"
  by (auto simp: tiki_queue_attempt_def split: response.splits option.splits sum.splits)

lemma tiki_queue_attempts_trace:
  "\<exists>tr. snd (tiki_queue_attempts e pid (a # rest)) = Request a # tr \<and>
     (tr = [] \<or> tr = Sleep (2 * a) # snd (tiki_queue_attempts e pid rest)
       \<or> tr = snd (tiki_queue_attempts e pid rest))"
proof -
  obtain x tr where x: "tiki_queue_attempt e pid a = (x, tr)" by (cases "tiki_queue_attempt e pid a")
  with tiki_queue_attempt_trace [of e pid a]
  have tr: "tr = [Request a] \<or> tr = [Request a, Sleep (2 * a)]" by simp
  have nf: "tr = [Request a]" if "x = Inl ex" for ex
    using x that by (auto simp: tiki_queue_attempt_def split: response.splits option.splits sum.splits if_splits)
  show ?thesis
  proof (cases x)
    case (Inl ex)
    with x nf [OF Inl] show ?thesis by (cases ex) auto
  next
    case (Inr fl)
    have "tr = [Request a]" if "fl \<noteq> Continue"
      using x Inr that by (auto simp: tiki_queue_attempt_def split: response.splits option.splits sum.splits if_splits)
    moreover have "tr = [Request a, Sleep (2 * a)]" if "fl = Continue"
      using x Inr that by (auto simp: tiki_queue_attempt_def split: response.splits option.splits sum.splits if_splits)
    ultimately show ?thesis using x Inr by (cases fl) auto
  qed
qed

lemma tiki_queue_sleeps_bound:
  "s \<in> set (sleeps (snd (tiki_queue_attempts e pid as))) \<Longrightarrow> \<exists>a\<in>set as. s = 2 * a"
proof (induction as)
  case Nil
  then show ?case by simp
next
  case (Cons a as)
  from tiki_queue_attempts_trace [of e pid a as] Cons show ?case by auto
qed

lemma tiki_queue_sleeps_sorted:
  "sorted as \<Longrightarrow> sorted (sleeps (snd (tiki_queue_attempts e pid as)))"
proof (induction as)
  case Nil
  then show ?case by simp
next
  case (Cons a as)
  then have s: "sorted (sleeps (snd (tiki_queue_attempts e pid as)))" by simp
  have b: "2 * a \<le> s" if "s \<in> set (sleeps (snd (tiki_queue_attempts e pid as)))" for s
    using tiki_queue_sleeps_bound [OF that] Cons.prems by auto
  from tiki_queue_attempts_trace [of e pid a as] s b show ?case by auto
qed

lemma tiki_queue_requests_length:
  "length (requests (snd (tiki_queue_attempts e pid as))) \<le> length as"
proof (induction as)
  case Nil
  then show ?case by simp
next
  case (Cons a as)
  from tiki_queue_attempts_trace [of e pid a as] Cons show ?case by auto
qed

lemma main_attempts_transient_status:
  assumes "remote e pid a = Response st body" "transient_status st"
  shows "main_attempts e pid (a # rest) =
           (fst (main_attempts e pid rest),
            [Request a, Sleep (2 * (a + 1))] @ snd (main_attempts e pid rest))"
  using assms transient_status_not_200_404 [of st] by (simp add: main_attempt_def)

lemma main_attempts_failure:
  assumes "remote e pid a = TransportFailure"
  shows "main_attempts e pid (a # rest) =
           (fst (main_attempts e pid rest), Request a # snd (main_attempts e pid rest))"
  using assms by (simp add: main_attempt_def)

lemma main_attempts_break:
  assumes "remote e pid a = Response st body" "st \<noteq> 200" "\<not> transient_status st"
  shows "main_attempts e pid (a # rest) = (None, [Request a])"
  using assms by (simp add: main_attempt_def)

lemma main_attempts_backoff:
  assumes "\<forall>a\<in>set xs. \<exists>st body. remote e pid a = Response st body \<and> transient_status st"
  shows "main_attempts e pid (xs @ ys) =
           (fst (main_attempts e pid ys),
            concat (map (\<lambda>a. [Request a, Sleep (2 * (a + 1))]) xs) @ snd (main_attempts e pid ys))"
  using assms
proof (induction xs)
  case Nil
  then show ?case by simp
next
  case (Cons a xs)
  then obtain st body where "remote e pid a = Response st body" "transient_status st" by auto
  from main_attempts_transient_status [OF this, of "xs @ ys"] Cons
  show ?case by (simp del: main_attempts.simps)
qed

lemma main_attempts_no_sleep:
  assumes "\<forall>a\<in>set xs. remote e pid a = TransportFailure"
  shows "main_attempts e pid (xs @ ys) =
           (fst (main_attempts e pid ys), map Request xs @ snd (main_attempts e pid ys))"
  using assms
proof (induction xs)
  case Nil
  then show ?case by simp
next
  case (Cons a xs)
  then have "remote e pid a = TransportFailure" by simp
  from main_attempts_failure [OF this, of "xs @ ys"] Cons
  show ?case by (simp del: main_attempts.simps)
qed

lemma main_attempts_trace:
  "\<exists>tr. snd (main_attempts e pid (a # rest)) = Request a # tr \<and>
     (tr = [] \<or> tr = Sleep (2 * (a + 1)) # snd (main_attempts e pid rest)
       \<or> tr = snd (main_attempts e pid rest))"
proof -
  obtain x tr where x: "main_attempt e pid a = (x, tr)" by (cases "main_attempt e pid a")
  show ?thesis
  proof (cases x)
    case (Inl ex)
    then have "tr = [Request a]"
      using x by (auto simp: main_attempt_def split: response.splits option.splits sum.splits if_splits)
    with x Inl show ?thesis by simp
  next
    case (Inr fl)
    have "tr = [Request a]" if "fl \<noteq> Continue"
      using x Inr that by (auto simp: main_attempt_def split: response.splits option.splits sum.splits if_splits)
    moreover have "tr = [Request a, Sleep (2 * (a + 1))]" if "fl = Continue"
      using x Inr that by (auto simp: main_attempt_def split: response.splits option.splits sum.splits if_splits)
    ultimately show ?thesis using x Inr by (cases fl) auto
  qed
qed

lemma main_sleeps_bound:
  "s \<in> set (sleeps (snd (main_attempts e pid as))) \<Longrightarrow> \<exists>a\<in>set as. s = 2 * (a + 1)"
proof (induction as)
  case Nil
  then show ?case by simp
next
  case (Cons a as)
  from main_attempts_trace [of e pid a as] Cons show ?case by auto
qed

lemma main_sleeps_sorted:
  "sorted as \<Longrightarrow> sorted (sleeps (snd (main_attempts e pid as)))"
proof (induction as)
  case Nil
  then show ?case by simp
next
  case (Cons a as)
  then have s: "sorted (sleeps (snd (main_attempts e pid as)))" by simp
  have b: "2 * (a + 1) \<le> s" if "s \<in> set (sleeps (snd (main_attempts e pid as)))" for s
    using main_sleeps_bound [OF that] Cons.prems by auto
  from main_attempts_trace [of e pid a as] s b show ?case by auto
qed

lemma main_requests_length:
  "length (requests (snd (main_attempts e pid as))) \<le> length as"
proof (induction as)
  case Nil
  then show ?case by simp
next
  case (Cons a as)
  from main_attempts_trace [of e pid a as] Cons show ?case by auto
qed

lemma upt_split: "n \<le> m \<Longrightarrow> [i..<i + m] = [i..<i + n] @ [i + n..<i + m]"
  by (metis le_Suc_ex upt_add_eq_append le_add1 add.assoc)

lemma length_backoff: "length (concat (map (\<lambda>a. [Request a, Sleep (f a)]) xs)) = 2 * length xs"
  by (induction xs) auto

lemma requests_backoff: "requests (concat (map (\<lambda>a. [Request a, Sleep (f a)]) xs)) = xs"
  by (induction xs) auto

lemma sleeps_backoff: "sleeps (concat (map (\<lambda>a. [Request a, Sleep (f a)]) xs)) = map f xs"
  by (induction xs) auto

lemma tiki_queue_fetch_prefix:
  assumes "n \<le> RETRIES" "\<forall>k<n. transient (remote e pid k)"
  shows "tiki_queue_fetch_product e pid =
           (fst (tiki_queue_attempts e pid [Suc n..<Suc RETRIES]),
            concat (map (\<lambda>a. [Request a, Sleep (2 * a)]) [1..<Suc n]) @
            snd (tiki_queue_attempts e pid [Suc n..<Suc RETRIES]))"
proof -
  have "[1..<1 + RETRIES] = [1..<1 + n] @ [1 + n..<1 + RETRIES]"
    using assms(1) by (rule upt_split)
  then have s: "[1..<RETRIES + 1] = [1..<Suc n] @ [Suc n..<Suc RETRIES]" by simp
  have "\<forall>a\<in>set [1..<Suc n]. transient (remote e pid (a - 1))"
    using assms(2) by auto
  from tiki_queue_attempts_backoff [OF this, of "[Suc n..<Suc RETRIES]"]
  show ?thesis unfolding tiki_queue_fetch_product_def s .
qed

lemma main_attempts_prefix:
  assumes "n \<le> RETRIES"
    "\<forall>k<n. \<exists>st body. remote e pid k = Response st body \<and> transient_status st"
  shows "main_attempts e pid [0..<RETRIES] =
           (fst (main_attempts e pid [n..<RETRIES]),
            concat (map (\<lambda>a. [Request a, Sleep (2 * (a + 1))]) [0..<n]) @
            snd (main_attempts e pid [n..<RETRIES]))"
proof -
  have "[0..<0 + RETRIES] = [0..<0 + n] @ [0 + n..<0 + RETRIES]"
    using assms(1) by (rule upt_split)
  then have s: "[0..<RETRIES] = [0..<n] @ [n..<RETRIES]" by simp
  have "\<forall>a\<in>set [0..<n]. \<exists>st body. remote e pid a = Response st body \<and> transient_status st"
    using assms(2) by auto
  from main_attempts_backoff [OF this, of "[n..<RETRIES]"]
  show ?thesis unfolding s [symmetric] by (simp add: s)
qed

section \<open>Properties of a batch\<close>

lemma set_status_qids: "map qid (set_status st m sel q) = map qid q"
  by (induction q) (auto simp: set_status_def)

lemma set_status_ids: "qid ` set (set_status st m sel q) = qid ` set q"
  using set_status_qids [of st m sel q] by (metis set_map)

lemma set_status_compose:
  "set_status st m s2 (set_status st m s1 q) = set_status st m (\<lambda>i. s1 i \<or> s2 i) q"
  by (induction q) (auto simp: set_status_def)

lemma set_status_none: "set_status st m (\<lambda>i. False) q = q"
  by (induction q) (auto simp: set_status_def)

lemma set_status_row:
  assumes "row' \<in> set (set_status st m sel q)"
  shows "\<exists>row\<in>set q. qid row = qid row' \<and>
           (if sel (qid row) then status row' = st \<and> last_error row' = m else row' = row)"
  using assms by (auto simp: set_status_def)

lemma set_status_selected:
  "row' \<in> set (set_status st m sel q) \<Longrightarrow> sel (qid row') \<Longrightarrow> status row' = st \<and> last_error row' = m"
  by (auto simp: set_status_def split: if_splits)

lemma set_status_unselected_row:
  "row' \<in> set (set_status st m sel q) \<Longrightarrow> \<not> sel (qid row') \<Longrightarrow> row' \<in> set q"
  by (auto simp: set_status_def split: if_splits)

lemma set_status_unselected:
  "\<not> sel i \<Longrightarrow> filter (\<lambda>r. qid r = i) (set_status st m sel q) = filter (\<lambda>r. qid r = i) q"
  by (induction q) (auto simp: set_status_def)

lemma update_fold:
  "foldl (\<lambda>q' pid. set_status st m (\<lambda>i. i = pid) q') q ids = set_status st m (\<lambda>i. i \<in> set ids) q"
proof (induction ids arbitrary: q)
  case Nil
  then show ?case by (simp add: set_status_none)
next
  case (Cons a ids)
  have "(\<lambda>i. i = a \<or> i \<in> set ids) = (\<lambda>i. i \<in> set (a # ids))" by auto
  with Cons show ?case by (simp add: set_status_compose)
qed

lemma main_update_queue_status_eq:
  "main_update_queue_status q ids st msg =
     set_status st (if msg \<noteq> None \<and> msg \<noteq> Some [] then msg else None) (\<lambda>i. i \<in> set ids) q"
  by (simp add: main_update_queue_status_def update_fold set_status_none)

lemma tiki_queue_update_queue_status_eq:
  "tiki_queue_update_queue_status q ids st msg =
     set_status st (if msg \<noteq> None \<and> msg \<noteq> Some [] then msg else None) (\<lambda>i. i \<in> set ids) q"
  by (simp add: tiki_queue_update_queue_status_def set_status_none)

lemma main_outcome_id: "id' (main_outcome e pid) = pid"
proof (cases "fst (main_attempts e pid [0..<RETRIES])")
  case None
  then show ?thesis by (simp add: main_outcome_def failure_dict_def)
next
  case (Some r)
  then obtain data where "main_result pid data = Inr r" using main_attempts_Some by blast
  then have "id' r = pid" using main_result_shape by blast
  with Some show ?thesis by (simp add: main_outcome_def)
qed

lemma main_outcome_all_none:
  "all_none (main_outcome e pid) \<longleftrightarrow> fst (main_attempts e pid [0..<RETRIES]) = None"
proof (cases "fst (main_attempts e pid [0..<RETRIES])")
  case None
  then show ?thesis by (simp add: main_outcome_def failure_dict_def all_none_iff)
next
  case (Some r)
  then obtain data where "main_result pid data = Inr r" using main_attempts_Some by blast
  then have "\<not> all_none r" by (rule main_result_not_all_none)
  with Some show ?thesis by (simp add: main_outcome_def)
qed

lemma main_outcome_failure:
  "fst (main_attempts e pid [0..<RETRIES]) = None \<Longrightarrow> main_outcome e pid = failure_dict pid"
  by (simp add: main_outcome_def)

lemma main_fetch_product_outcome:
  "\<exists>rc' tr. main_fetch_product e pid rc = Inr (main_outcome e pid, rc', tr)"
  by (simp add: main_fetch_product_eq main_outcome_def)

lemma main_route_eq:
  "\<exists>rc'. main_route e ids (good, errors, rc) =
     Inr (good @ filter (\<lambda>r. \<not> all_none r) (map (main_outcome e) ids),
          errors @ filter all_none (map (main_outcome e) ids), rc')"
proof (induction ids arbitrary: good errors rc)
  case Nil
  then show ?case by simp
next
  case (Cons pid ids)
  obtain rc1 tr where f: "main_fetch_product e pid rc = Inr (main_outcome e pid, rc1, tr)"
    using main_fetch_product_outcome by blast
  show ?case
  proof (cases "all_none (main_outcome e pid)")
    case True
    from Cons [of good "errors @ [main_outcome e pid]" rc1] f True show ?thesis by auto
  next
    case False
    from Cons [of "good @ [main_outcome e pid]" errors rc1] f False show ?thesis by auto
  qed
qed

lemma main_process_batch_eq:
  "\<exists>rc'. main_process_batch e batch =
     Inr (filter (\<lambda>r. \<not> all_none r) (map (main_outcome e) (sched e batch)),
          filter all_none (map (main_outcome e) (sched e batch)), rc')"
  using main_route_eq [of e "sched e batch" "[]" "[]" Map.empty]
  by (simp add: main_process_batch_def)

lemma main_batches_step:
  "main_batches e (batch # rest) d =
     main_batches e rest
       (persist (filter (\<lambda>r. \<not> all_none r) (map (main_outcome e) (sched e batch)))
                (filter all_none (map (main_outcome e) (sched e batch)))
                (map id' (filter all_none (map (main_outcome e) (sched e batch))))
                ''Failed after retries'' d)"
proof -
  obtain rc' where "main_process_batch e batch =
     Inr (filter (\<lambda>r. \<not> all_none r) (map (main_outcome e) (sched e batch)),
          filter all_none (map (main_outcome e) (sched e batch)), rc')"
    using main_process_batch_eq by blast
  then show ?thesis
    by (simp add: persist_def main_update_queue_status_eq insert_batch_def)
qed

lemma main_errors_eq:
  "filter all_none (map (main_outcome e) xs) =
     map failure_dict (filter (\<lambda>pid. fst (main_attempts e pid [0..<RETRIES]) = None) xs)"
  by (induction xs) (auto simp: main_outcome_all_none main_outcome_failure)

lemma main_error_ids_eq:
  "map id' (filter all_none (map (main_outcome e) xs)) =
     filter (\<lambda>pid. fst (main_attempts e pid [0..<RETRIES]) = None) xs"
  by (induction xs) (auto simp: main_outcome_all_none main_outcome_id)

lemma main_good_ids_eq:
  "map id' (filter (\<lambda>r. \<not> all_none r) (map (main_outcome e) xs)) =
     filter (\<lambda>pid. fst (main_attempts e pid [0..<RETRIES]) \<noteq> None) xs"
  by (induction xs) (auto simp: main_outcome_all_none main_outcome_id)

lemma persist_qids: "map qid (tiki_queue (persist g er E m d)) = map qid (tiki_queue d)"
  by (simp add: persist_def set_status_qids)

lemma persist_ids: "qid ` set (tiki_queue (persist g er E m d)) = qid ` set (tiki_queue d)"
  using persist_qids [of g er E m d] by (metis set_map)

lemma persist_error_row:
  "row \<in> set (tiki_queue (persist g er E m d)) \<Longrightarrow> qid row \<in> set E \<Longrightarrow>
     status row = ''error'' \<and> last_error row = Some m"
proof -
  assume a: "row \<in> set (tiki_queue (persist g er E m d))" "qid row \<in> set E"
  let ?q1 = "set_status ''done'' None (\<lambda>i. i \<in> set (map id' g)) (tiki_queue d)"
  from a(1) have "row \<in> set (set_status ''error'' (Some m) (\<lambda>i. i \<in> set E) ?q1)"
    by (simp add: persist_def)
  from set_status_selected [OF this] a(2) show ?thesis by simp
qed

lemma persist_done_row:
  assumes "row \<in> set (tiki_queue (persist g er E m d))" "qid row \<notin> set E" "qid row \<in> id' ` set g"
  shows "status row = ''done'' \<and> last_error row = None"
proof -
  let ?q1 = "set_status ''done'' None (\<lambda>i. i \<in> set (map id' g)) (tiki_queue d)"
  from assms(1) have "row \<in> set (set_status ''error'' (Some m) (\<lambda>i. i \<in> set E) ?q1)"
    by (simp add: persist_def)
  then have "row \<in> set ?q1" using assms(2) by (rule set_status_unselected_row)
  moreover have "(\<lambda>i. i \<in> set (map id' g)) (qid row)" using assms(3) by simp
  ultimately show ?thesis by (rule set_status_selected)
qed

lemma persist_other_rows:
  assumes "i \<notin> set E" "i \<notin> id' ` set g"
  shows "filter (\<lambda>r. qid r = i) (tiki_queue (persist g er E m d)) =
         filter (\<lambda>r. qid r = i) (tiki_queue d)"
  using assms by (simp add: persist_def set_status_unselected)

lemma persist_tables:
  "tiki_error (persist g er E m d) = foldl upsert_row (tiki_error d) er"
  "tiki_product (persist g er E m d) = foldl upsert_row (tiki_product d) g"
  by (simp_all add: persist_def)

lemma upsert_row_keeps:
  "x \<in> set t \<Longrightarrow> id' x \<noteq> id' r \<Longrightarrow> x \<in> set (upsert_row t r)"
  by (auto simp: upsert_row_def)

lemma upsert_all_keeps:
  "x \<in> set t \<Longrightarrow> id' x \<notin> id' ` set rs \<Longrightarrow> x \<in> set (foldl upsert_row t rs)"
proof (induction rs arbitrary: t)
  case Nil
  then show ?case by simp
next
  case (Cons r rs)
  then have "id' x \<noteq> id' r" "id' x \<notin> id' ` set rs" by auto
  with Cons show ?case by (simp add: upsert_row_keeps)
qed

lemma upsert_all_from:
  "x \<in> set (foldl upsert_row t rs) \<Longrightarrow> x \<in> set t \<or> x \<in> set rs"
proof (induction rs arbitrary: t)
  case Nil
  then show ?case by simp
next
  case (Cons r rs)
  then have "x \<in> set (upsert_row t r) \<or> x \<in> set rs" by simp
  then show ?case using upsert_row_member [of x t r] by auto
qed

lemma upsert_all_holds:
  assumes "x \<in> set rs" "\<forall>y\<in>set rs. id' y = id' x \<longrightarrow> y = x"
  shows "x \<in> set (foldl upsert_row t rs)"
proof -
  have "id' x \<in> id' ` set (foldl upsert_row t rs)" using assms(1) by (simp add: upsert_all_ids)
  then obtain z where z: "z \<in> set (foldl upsert_row t rs)" "id' z = id' x" by auto
  have "id' z \<in> id' ` set rs" using assms(1) z(2) by auto
  with z(1) have "find (\<lambda>r. id' r = id' z) (rev rs) = Some z" by (rule upsert_all_last)
  then have "z \<in> set rs" by (metis find_Some_iff nth_mem set_rev)
  with assms(2) z show ?thesis by auto
qed

lemma chunks_concat: "0 < n \<Longrightarrow> concat (chunks n xs) = xs"
proof (induction n xs rule: chunks.induct)
  case (1 n xs)
  show ?case
  proof (cases "xs = []")
    case True
    then show ?thesis by (simp add: chunks.simps [of n "[]"])
  next
    case False
    with 1 show ?thesis by (simp add: chunks.simps [of n xs])
  qed
qed

lemma concat_take_prefix: "\<exists>zs. concat bs = concat (take k bs) @ zs"
  by (metis append_take_drop_id concat_append)

lemma chunks_take_subset: "0 < n \<Longrightarrow> set (concat (take k (chunks n xs))) \<subseteq> set xs"
  using concat_take_prefix [of "chunks n xs" k] chunks_concat [of n xs]
  by (metis Un_upper1 set_append)

lemma chunks_take_distinct: "0 < n \<Longrightarrow> distinct xs \<Longrightarrow> distinct (concat (take k (chunks n xs)))"
  using concat_take_prefix [of "chunks n xs" k] chunks_concat [of n xs]
  by (metis distinct_append)

section \<open>Error records and queue status\<close>

lemma error_rows_marked_iff:
  "error_rows_marked d \<longleftrightarrow>
     (\<forall>r\<in>set (tiki_error d). \<exists>row\<in>set (tiki_queue d). qid row = id' r \<and> status row = ''error'')"
  by (simp add: error_rows_marked_def list_all_iff list_ex_iff)

lemma error_rows_settled_iff:
  "error_rows_settled d \<longleftrightarrow>
     (\<forall>r\<in>set (tiki_error d). \<exists>row\<in>set (tiki_queue d). qid row = id' r \<and>
         (status row = ''error'' \<or> status row = ''done''))"
  by (simp add: error_rows_settled_def list_all_iff list_ex_iff)

lemma rows_of_id: "row \<in> set q \<Longrightarrow> row \<in> set (filter (\<lambda>r. qid r = qid row) q)"
  by simp

lemma persist_keeps_row:
  assumes "row \<in> set (tiki_queue d)" "qid row \<notin> set E" "qid row \<notin> id' ` set g"
  shows "row \<in> set (tiki_queue (persist g er E m d))"
proof -
  have "row \<in> set (filter (\<lambda>r. qid r = qid row) (tiki_queue d))" using assms(1) by simp
  then have "row \<in> set (filter (\<lambda>r. qid r = qid row) (tiki_queue (persist g er E m d)))"
    using persist_other_rows [OF assms(2,3)] by simp
  then show ?thesis by simp
qed

lemma persist_marked:
  assumes m: "error_rows_marked d"
    and er: "id' ` set er \<subseteq> set E"
    and rows: "set E \<subseteq> qid ` set (tiki_queue d)"
    and fresh: "\<forall>row\<in>set (tiki_queue d). qid row \<in> id' ` set g \<union> set E \<longrightarrow> status row \<noteq> ''error''"
  shows "error_rows_marked (persist g er E msg d)"
  unfolding error_rows_marked_iff
proof
  fix r assume "r \<in> set (tiki_error (persist g er E msg d))"
  then have "r \<in> set (tiki_error d) \<or> r \<in> set er"
    using upsert_all_from by (simp add: persist_tables)
  then show "\<exists>row\<in>set (tiki_queue (persist g er E msg d)). qid row = id' r \<and> status row = ''error''"
  proof
    assume "r \<in> set (tiki_error d)"
    with m obtain row where row: "row \<in> set (tiki_queue d)" "qid row = id' r" "status row = ''error''"
      unfolding error_rows_marked_iff by blast
    with fresh have "qid row \<notin> id' ` set g \<union> set E" by blast
    then have "row \<in> set (tiki_queue (persist g er E msg d))"
      using row(1) by (intro persist_keeps_row) auto
    with row show ?thesis by blast
  next
    assume "r \<in> set er"
    with er have e: "id' r \<in> set E" by auto
    with rows have "id' r \<in> qid ` set (tiki_queue (persist g er E msg d))"
      by (auto simp: persist_ids)
    then obtain row where row: "row \<in> set (tiki_queue (persist g er E msg d))" "qid row = id' r"
      by auto
    with e persist_error_row [of row g er E msg d] show ?thesis by auto
  qed
qed

lemma persist_settled:
  assumes m: "error_rows_settled d"
    and er: "id' ` set er \<subseteq> set E"
    and rows: "set E \<subseteq> qid ` set (tiki_queue d)"
  shows "error_rows_settled (persist g er E msg d)"
  unfolding error_rows_settled_iff
proof
  fix r assume "r \<in> set (tiki_error (persist g er E msg d))"
  then have "r \<in> set (tiki_error d) \<or> r \<in> set er"
    using upsert_all_from by (simp add: persist_tables)
  then have "id' r \<in> qid ` set (tiki_queue d)"
  proof
    assume "r \<in> set (tiki_error d)"
    with m show ?thesis unfolding error_rows_settled_iff by force
  next
    assume "r \<in> set er"
    with er rows show ?thesis by auto
  qed
  then have "id' r \<in> qid ` set (tiki_queue (persist g er E msg d))"
    by (simp add: persist_ids)
  then obtain row where row: "row \<in> set (tiki_queue (persist g er E msg d))" "qid row = id' r"
    by auto
  consider "id' r \<in> set E" | "id' r \<notin> set E" "id' r \<in> id' ` set g"
    | "id' r \<notin> set E" "id' r \<notin> id' ` set g" by blast
  then show "\<exists>row\<in>set (tiki_queue (persist g er E msg d)). qid row = id' r \<and>
       (status row = ''error'' \<or> status row = ''done'')"
  proof cases
    case 1
    with row persist_error_row [of row g er E msg d] show ?thesis by auto
  next
    case 2
    with row persist_done_row [of row g er E msg d] show ?thesis by auto
  next
    case 3
    have "r \<in> set (tiki_error d)"
      using \<open>r \<in> set (tiki_error d) \<or> r \<in> set er\<close> er 3 by auto
    with m obtain row1 where row1: "row1 \<in> set (tiki_queue d)" "qid row1 = id' r"
        "status row1 = ''error'' \<or> status row1 = ''done''"
      unfolding error_rows_settled_iff by blast
    then have "row1 \<in> set (tiki_queue (persist g er E msg d))"
      using 3 by (intro persist_keeps_row) auto
    with row1 show ?thesis by blast
  qed
qed

lemma pending_iff:
  "i \<in> set (fetch_pending_ids q) \<longleftrightarrow> (\<exists>r\<in>set q. qid r = i \<and> status r = ''pending'')"
  by (auto simp: fetch_pending_ids_def)

lemma outstanding_iff:
  "i \<in> set (fetch_pending_or_error_ids q) \<longleftrightarrow>
     (\<exists>r\<in>set q. qid r = i \<and> (status r = ''pending'' \<or> status r = ''error''))"
  by (auto simp: fetch_pending_or_error_ids_def)

lemma distinct_qid_unique:
  "distinct (map qid q) \<Longrightarrow> r \<in> set q \<Longrightarrow> r' \<in> set q \<Longrightarrow> qid r = qid r' \<Longrightarrow> r = r'"
  by (meson distinct_map inj_onD)

lemma distinct_pending: "distinct (map qid q) \<Longrightarrow> distinct (fetch_pending_ids q)"
  by (simp add: fetch_pending_ids_def distinct_map_filter)

lemma distinct_outstanding: "distinct (map qid q) \<Longrightarrow> distinct (fetch_pending_or_error_ids q)"
  by (simp add: fetch_pending_or_error_ids_def distinct_map_filter)

lemma main_step_inv:
  assumes xs: "set xs \<subseteq> set (fetch_pending_ids (tiki_queue d))"
    and d: "distinct (map qid (tiki_queue d))" and m: "error_rows_marked d"
  shows "error_rows_marked
           (persist (filter (\<lambda>r. \<not> all_none r) (map (main_outcome e) xs))
                    (filter all_none (map (main_outcome e) xs))
                    (map id' (filter all_none (map (main_outcome e) xs))) msg d)"
proof (rule persist_marked [OF m])
  let ?G = "filter (\<lambda>r. \<not> all_none r) (map (main_outcome e) xs)"
  let ?E = "map id' (filter all_none (map (main_outcome e) xs))"
  show "id' ` set (filter all_none (map (main_outcome e) xs)) \<subseteq> set ?E" by simp
  have E: "set ?E \<subseteq> set xs" unfolding main_error_ids_eq by auto
  have "id' ` set ?G = set (map id' ?G)" by simp
  also have "\<dots> \<subseteq> set xs" unfolding main_good_ids_eq by auto
  finally have G: "id' ` set ?G \<subseteq> set xs" .
  show "set ?E \<subseteq> qid ` set (tiki_queue d)"
  proof
    fix i assume "i \<in> set ?E"
    with E xs have "i \<in> set (fetch_pending_ids (tiki_queue d))" by blast
    then show "i \<in> qid ` set (tiki_queue d)" unfolding pending_iff by force
  qed
  show "\<forall>row\<in>set (tiki_queue d). qid row \<in> id' ` set ?G \<union> set ?E \<longrightarrow> status row \<noteq> ''error''"
  proof (intro ballI impI)
    fix row assume row: "row \<in> set (tiki_queue d)" and "qid row \<in> id' ` set ?G \<union> set ?E"
    with E G xs have "qid row \<in> set (fetch_pending_ids (tiki_queue d))" by blast
    then obtain r where r: "r \<in> set (tiki_queue d)" "qid r = qid row" "status r = ''pending''"
      unfolding pending_iff by blast
    with distinct_qid_unique [OF d r(1) row] have "r = row" by simp
    with r show "status row \<noteq> ''error''" by simp
  qed
qed

lemma main_step_pending:
  assumes "i \<in> set (fetch_pending_ids (tiki_queue d))" "i \<notin> set xs"
  shows "i \<in> set (fetch_pending_ids (tiki_queue
           (persist (filter (\<lambda>r. \<not> all_none r) (map (main_outcome e) xs))
                    (filter all_none (map (main_outcome e) xs))
                    (map id' (filter all_none (map (main_outcome e) xs))) msg d)))"
proof -
  let ?G = "filter (\<lambda>r. \<not> all_none r) (map (main_outcome e) xs)"
  let ?E = "map id' (filter all_none (map (main_outcome e) xs))"
  from assms(1) obtain r where r: "r \<in> set (tiki_queue d)" "qid r = i" "status r = ''pending''"
    unfolding pending_iff by blast
  have "set ?E \<subseteq> set xs" unfolding main_error_ids_eq by auto
  then have 1: "qid r \<notin> set ?E" using assms(2) r(2) by auto
  have "id' ` set ?G = set (map id' ?G)" by simp
  also have "\<dots> \<subseteq> set xs" unfolding main_good_ids_eq by auto
  finally have 2: "qid r \<notin> id' ` set ?G" using assms(2) r(2) by auto
  from persist_keeps_row [OF r(1) 1 2] r show ?thesis unfolding pending_iff by blast
qed

lemma main_batches_inv:
  assumes sched: "\<forall>b. set (sched e b) = set b"
  shows "distinct (map qid (tiki_queue d)) \<Longrightarrow> error_rows_marked d \<Longrightarrow>
         set (concat bs) \<subseteq> set (fetch_pending_ids (tiki_queue d)) \<Longrightarrow>
         distinct (concat bs) \<Longrightarrow>
         \<exists>d'. main_batches e bs d = Inr d' \<and> distinct (map qid (tiki_queue d')) \<and>
              error_rows_marked d'"
proof (induction bs arbitrary: d)
  case Nil
  then show ?case by simp
next
  case (Cons b rest)
  let ?xs = "sched e b"
  let ?d1 = "persist (filter (\<lambda>r. \<not> all_none r) (map (main_outcome e) ?xs))
                     (filter all_none (map (main_outcome e) ?xs))
                     (map id' (filter all_none (map (main_outcome e) ?xs)))
                     ''Failed after retries'' d"
  have xs: "set ?xs = set b" using sched by simp
  have sub: "set ?xs \<subseteq> set (fetch_pending_ids (tiki_queue d))"
    using Cons.prems(3) xs by auto
  have 1: "distinct (map qid (tiki_queue ?d1))" using Cons.prems(1) by (simp add: persist_qids)
  have 2: "error_rows_marked ?d1"
    using sub Cons.prems(1) Cons.prems(2) by (rule main_step_inv)
  have 3: "set (concat rest) \<subseteq> set (fetch_pending_ids (tiki_queue ?d1))"
  proof
    fix i assume i: "i \<in> set (concat rest)"
    then have "i \<in> set (fetch_pending_ids (tiki_queue d))" using Cons.prems(3) by auto
    moreover have "i \<notin> set ?xs" using i Cons.prems(4) xs by auto
    ultimately show "i \<in> set (fetch_pending_ids (tiki_queue ?d1))"
      by (rule main_step_pending)
  qed
  have 4: "distinct (concat rest)" using Cons.prems(4) by simp
  from Cons.IH [OF 1 2 3 4] show ?case by (simp only: main_batches_step)
qed

lemma BATCH_SIZE_pos: "0 < BATCH_SIZE"
  by (simp add: BATCH_SIZE_def)

lemma init_keeps_marked:
  assumes "error_rows_marked d"
  shows "error_rows_marked (d\<lparr>tiki_queue := main_init_queue (tiki_queue d) ids\<rparr>)"
proof -
  obtain new where "main_init_queue (tiki_queue d) ids = tiki_queue d @ new"
    using insert_all_prefix [of "tiki_queue d" "dedup ids"] by (auto simp: main_init_queue_def)
  with assms show ?thesis unfolding error_rows_marked_iff by auto
qed

lemma main_uninterrupted_inv:
  "main_uninterrupted d \<Longrightarrow> distinct (map qid (tiki_queue d)) \<and> error_rows_marked d"
proof (induction rule: main_uninterrupted.induct)
  case (main_initial d)
  then show ?case by (simp add: error_rows_marked_def)
next
  case (main_whole_batches d e d1 ids pending_ids k d')
  let ?bs = "take k (chunks BATCH_SIZE pending_ids)"
  have 1: "distinct (map qid (tiki_queue d1))"
    using main_whole_batches.IH main_whole_batches.hyps(3) by (simp add: main_init_queue_def insert_all_distinct)
  have 2: "error_rows_marked d1"
    using main_whole_batches.IH main_whole_batches.hyps(3) init_keeps_marked by simp
  have "set (concat ?bs) \<subseteq> set pending_ids"
    using BATCH_SIZE_pos by (rule chunks_take_subset)
  then have 3: "set (concat ?bs) \<subseteq> set (fetch_pending_ids (tiki_queue d1))"
    using main_whole_batches.hyps(5) by simp
  have 4: "distinct (concat ?bs)"
    using BATCH_SIZE_pos main_whole_batches.hyps(4) by (rule chunks_take_distinct)
  from main_batches_inv [OF main_whole_batches.hyps(2) 1 2 3 4] main_whole_batches.hyps(6)
  show ?case by simp
qed

section \<open>Properties of a batch of tiki_queue.py\<close>

lemma ebind_Inl: "ebind m f = Inl x \<Longrightarrow> m = Inl x \<or> (\<exists>v. m = Inr v \<and> f v = Inl x)"
  by (cases m) (auto simp: ebind_def)

lemma py_get_error: "py_get v k = Inl x \<Longrightarrow> x = AttributeError"
  by (cases v) auto

lemma tiki_queue_clean_text_error: "tiki_queue_clean_text e v = Inl x \<Longrightarrow> x = TypeError"
  by (cases v) (auto simp: tiki_queue_clean_text_def split: if_splits)

lemma py_index0_error: "py_index0 v = Inl x \<Longrightarrow> x \<in> {IndexError, KeyError, TypeError}"
  by (induction v rule: py_index0.induct) auto

lemma first_image_error:
  "first_image data = Inl x \<Longrightarrow> x \<in> {AttributeError, IndexError, KeyError, TypeError}"
  unfolding first_image_def
  by (auto dest!: ebind_Inl dest: py_get_error py_index0_error split: if_splits)

lemma result_dict_error:
  "result_dict (tiki_queue_clean_text e) pid data = Inl x \<Longrightarrow>
     x \<in> {AttributeError, IndexError, KeyError, TypeError}"
  unfolding result_dict_def
  by (auto dest!: ebind_Inl dest: py_get_error tiki_queue_clean_text_error first_image_error)

lemma tiki_queue_result_error: "tiki_queue_result e pid data \<noteq> Inl (ProductNotFoundError p)"
proof
  assume "tiki_queue_result e pid data = Inl (ProductNotFoundError p)"
  then have "result_dict (tiki_queue_clean_text e) pid data = Inl (ProductNotFoundError p)"
    unfolding tiki_queue_result_def by (auto dest!: ebind_Inl)
  from result_dict_error [OF this] show False by simp
qed

lemma tiki_queue_attempt_not_found:
  "tiki_queue_attempt e pid a = (Inl (ProductNotFoundError p), tr) \<Longrightarrow> p = pid"
  using tiki_queue_result_error [of e pid]
  by (auto simp: tiki_queue_attempt_def split: response.splits option.splits sum.splits if_splits)

lemma tiki_queue_attempt_Return:
  "tiki_queue_attempt e pid a = (Inr (Return r), tr) \<Longrightarrow> \<exists>data. tiki_queue_result e pid data = Inr r"
  by (auto simp: tiki_queue_attempt_def split: response.splits if_splits option.splits sum.splits)

lemma tiki_queue_attempts_result:
  "(fst (tiki_queue_attempts e pid as) = Inl ex \<longrightarrow> ex = ProductNotFoundError pid) \<and>
   (fst (tiki_queue_attempts e pid as) = Inr (Some r) \<longrightarrow> id' r = pid)"
proof (induction as)
  case Nil
  then show ?case by simp
next
  case (Cons a as)
  obtain x tr where x: "tiki_queue_attempt e pid a = (x, tr)" by (cases "tiki_queue_attempt e pid a")
  show ?case
  proof (cases x)
    case (Inl ex')
    show ?thesis
    proof (cases ex')
      case (ProductNotFoundError p)
      with x Inl tiki_queue_attempt_not_found [of e pid a p tr] show ?thesis by simp
    qed (use x Inl Cons in simp_all)
  next
    case (Inr fl)
    show ?thesis
    proof (cases fl)
      case (Return r')
      with x Inr tiki_queue_attempt_Return [of e pid a r' tr] tiki_queue_result_shape [of e pid _ r']
      show ?thesis by auto
    qed (use x Inr Cons in simp_all)
  qed
qed

lemma tiki_queue_good_ids: "r \<in> set (tiki_queue_good e pid) \<Longrightarrow> id' r = pid"
  using tiki_queue_attempts_result [of e pid "[1..<RETRIES + 1]" _ r]
  by (auto simp: tiki_queue_good_def tiki_queue_fetch_product_def split: sum.splits option.splits)

lemma tiki_queue_not_found_ids: "p \<in> set (tiki_queue_not_found e pid) \<Longrightarrow> p = pid"
  using tiki_queue_attempts_result [of e pid "[1..<RETRIES + 1]" "ProductNotFoundError p"]
  by (auto simp: tiki_queue_not_found_def tiki_queue_fetch_product_def
           split: sum.splits py_exception.splits)

lemma tiki_queue_route_eq:
  "tiki_queue_route e ids (good, errors, error_ids) =
     (good @ concat (map (tiki_queue_good e) ids),
      errors @ map not_found_record (concat (map (tiki_queue_not_found e) ids)),
      error_ids @ concat (map (tiki_queue_not_found e) ids))"
proof (induction ids arbitrary: good errors error_ids)
  case Nil
  then show ?case by simp
next
  case (Cons pid ids)
  show ?case
  proof (cases "fst (tiki_queue_fetch_product e pid)")
    case (Inl ex)
    then show ?thesis
      by (cases ex) (simp_all add: Cons tiki_queue_good_def tiki_queue_not_found_def)
  next
    case (Inr ro)
    then show ?thesis
      by (cases ro) (simp_all add: Cons tiki_queue_good_def tiki_queue_not_found_def)
  qed
qed

lemma tiki_queue_process_batch_persist:
  "fst (tiki_queue_process_batch e d batch) =
     persist (concat (map (tiki_queue_good e) (sched e batch)))
             (map not_found_record (concat (map (tiki_queue_not_found e) (sched e batch))))
             (concat (map (tiki_queue_not_found e) (sched e batch)))
             ''404 Not Found'' d"
proof -
  have ib: "insert_batch_to_db t rs = foldl upsert_row t rs" for t rs
    by (simp add: insert_batch_to_db_def)
  show ?thesis
    by (simp add: tiki_queue_process_batch_def tiki_queue_route_eq persist_def
        tiki_queue_update_queue_status_eq ib)
qed

lemma tiki_queue_good_subset: "id' ` set (concat (map (tiki_queue_good e) xs)) \<subseteq> set xs"
  using tiki_queue_good_ids by fastforce

lemma tiki_queue_not_found_subset: "set (concat (map (tiki_queue_not_found e) xs)) \<subseteq> set xs"
  using tiki_queue_not_found_ids by fastforce

lemma not_found_record_ids: "id' ` set (map not_found_record ps) = set ps"
  by (induction ps) (auto simp: not_found_record_def)

lemma tiki_queue_batches_settled:
  assumes sched: "\<forall>b. set (sched e b) = set b"
  shows "error_rows_settled d \<Longrightarrow> set (concat bs) \<subseteq> qid ` set (tiki_queue d) \<Longrightarrow>
         error_rows_settled (tiki_queue_batches e bs d)"
proof (induction bs arbitrary: d)
  case Nil
  then show ?case by simp
next
  case (Cons b rest)
  let ?NF = "concat (map (tiki_queue_not_found e) (sched e b))"
  let ?d1 = "fst (tiki_queue_process_batch e d b)"
  have "set ?NF \<subseteq> set (sched e b)" by (rule tiki_queue_not_found_subset)
  also have "\<dots> = set b" using sched by simp
  also have "\<dots> \<subseteq> qid ` set (tiki_queue d)" using Cons.prems(2) by simp
  finally have rows: "set ?NF \<subseteq> qid ` set (tiki_queue d)" .
  have er: "id' ` set (map not_found_record ?NF) \<subseteq> set ?NF"
    unfolding not_found_record_ids by simp
  have 1: "error_rows_settled ?d1"
    unfolding tiki_queue_process_batch_persist
    using Cons.prems(1) er rows by (rule persist_settled)
  have 2: "set (concat rest) \<subseteq> qid ` set (tiki_queue ?d1)"
    unfolding tiki_queue_process_batch_persist persist_ids using Cons.prems(2) by simp
  from Cons.IH [OF 1 2] show ?case by simp
qed

lemma tiki_queue_uninterrupted_settled: "tiki_queue_uninterrupted d \<Longrightarrow> error_rows_settled d"
proof (induction rule: tiki_queue_uninterrupted.induct)
  case (tiki_queue_initial d)
  then show ?case by (simp add: error_rows_settled_def)
next
  case (tiki_queue_whole_batches d e d1 ids pending_ids d' k)
  let ?bs = "take k (chunks BATCH_SIZE pending_ids)"
  obtain new where "tiki_queue d1 = tiki_queue d @ new" "tiki_error d1 = tiki_error d"
    using tiki_queue_whole_batches.hyps(3) insert_all_prefix [of "tiki_queue d" "dedup ids"]
    by (cases "length (tiki_queue d) = 0") (auto simp: tiki_queue_init_queue_def)
  with tiki_queue_whole_batches.IH have 1: "error_rows_settled d1"
    unfolding error_rows_settled_iff by auto
  have "set (concat ?bs) \<subseteq> set pending_ids"
    using BATCH_SIZE_pos by (rule chunks_take_subset)
  also have "\<dots> = set (fetch_pending_or_error_ids (tiki_queue d1))"
    by (rule tiki_queue_whole_batches.hyps(5))
  also have "\<dots> \<subseteq> qid ` set (tiki_queue d1)"
    unfolding fetch_pending_or_error_ids_def by auto
  finally have 2: "set (concat ?bs) \<subseteq> qid ` set (tiki_queue d1)" .
  from tiki_queue_batches_settled [OF tiki_queue_whole_batches.hyps(2) 1 2] tiki_queue_whole_batches.hyps(6)
  show ?case by simp
qed

section \<open>Concrete runs\<close>

lemma fetch_404_tiki_queue:
  "tiki_queue_fetch_product (scenario (\<lambda>pid k. Response 404 None)) pid =
     (Inl (ProductNotFoundError pid), [Request 1])"
  unfolding tiki_queue_fetch_product_def attempts_tiki_queue
  by (simp add: tiki_queue_attempt_def scenario_def)

lemma fetch_503_tiki_queue:
  "tiki_queue_fetch_product (scenario (\<lambda>pid k. Response 503 None)) pid =
     (Inr None, [Request 1, Sleep 2, Request 2, Sleep 4, Request 3, Sleep 6, Request 4, Sleep 8,
                 Request 5, Sleep 10])"
  unfolding tiki_queue_fetch_product_def attempts_tiki_queue
  by (simp add: tiki_queue_attempt_def scenario_def transient_status_def)

lemma fetch_200_tiki_queue:
  "fst (tiki_queue_fetch_product (scenario (\<lambda>pid k. Response 200 (Some free_product))) pid) =
     Inr (Some \<lparr>id' = pid, name = PStr ''a'', url_key = PStr ''k'', price = PInt 0,
                description = PStr ''d'', image_url = PStr ''u'',
                missing_fields = PStr ''price''\<rparr>)"
  unfolding tiki_queue_fetch_product_def attempts_tiki_queue
  by (simp add: tiki_queue_attempt_def scenario_def free_product_def
      tiki_queue_result_def result_dict_def ebind_def tiki_queue_clean_text_def main_clean_text_def
      first_image_def with_missing_def tiki_queue_missing_def items_def)

lemma fetch_404_main:
  "main_attempts (scenario (\<lambda>pid k. Response 404 None)) pid [0..<RETRIES] = (None, [Request 0])"
  unfolding attempts_main by (simp add: main_attempt_def scenario_def transient_status_def)

lemma fetch_503_main:
  "main_attempts (scenario (\<lambda>pid k. Response 503 None)) pid [0..<RETRIES] =
     (None, [Request 0, Sleep 2, Request 1, Sleep 4, Request 2, Sleep 6, Request 3, Sleep 8,
             Request 4, Sleep 10])"
  unfolding attempts_main by (simp add: main_attempt_def scenario_def transient_status_def)

lemma scenario_simps:
  "sched (scenario r) b = b" "remote (scenario r) = r" "normalize (scenario r) s = s"
  by (simp_all add: scenario_def)

lemma chunks_single: "chunks BATCH_SIZE [x] = [[x]]"
  by (simp add: chunks.simps BATCH_SIZE_def)

lemmas run_defs =
  empty_db_def main_init_queue_def tiki_queue_init_queue_def dedup_def insert_pending_def
  fetch_pending_ids_def fetch_pending_or_error_ids_def chunks_single
  main_process_batch_def tiki_queue_process_batch_def main_fetch_product_def
  all_none_iff failure_dict_def not_found_record_def insert_batch_def
  insert_batch_to_db_def upsert_row_def main_update_queue_status_def
  tiki_queue_update_queue_status_def set_status_def

lemma run_404_main:
  "main_main (scenario (\<lambda>pid k. Response 404 None)) [2] empty_db =
     Inr \<lparr>tiki_queue = [\<lparr>qid = 2, status = ''error'',
                          last_error = Some ''Failed after retries''\<rparr>],
          tiki_product = [], tiki_error = [failure_dict 2]\<rparr>"
  by (simp add: main_main_def run_defs fetch_404_main scenario_simps)

lemma run_503_main:
  "main_main (scenario (\<lambda>pid k. Response 503 None)) [2] empty_db =
     Inr \<lparr>tiki_queue = [\<lparr>qid = 2, status = ''error'',
                          last_error = Some ''Failed after retries''\<rparr>],
          tiki_product = [], tiki_error = [failure_dict 2]\<rparr>"
  by (simp add: main_main_def run_defs fetch_503_main scenario_simps)

lemma run_404_tiki_queue:
  "tiki_queue_main (scenario (\<lambda>pid k. Response 404 None)) [2] empty_db =
     \<lparr>tiki_queue = [\<lparr>qid = 2, status = ''error'', last_error = Some ''404 Not Found''\<rparr>],
      tiki_product = [], tiki_error = [not_found_record 2]\<rparr>"
  by (simp add: tiki_queue_main_def run_defs fetch_404_tiki_queue scenario_simps)

lemma run_503_tiki_queue:
  "tiki_queue_main (scenario (\<lambda>pid k. Response 503 None)) [2] empty_db =
     \<lparr>tiki_queue = [\<lparr>qid = 2, status = ''pending'', last_error = None\<rparr>],
      tiki_product = [], tiki_error = []\<rparr>"
  by (simp add: tiki_queue_main_def run_defs fetch_503_tiki_queue scenario_simps)

lemma run_404_then_200_tiki_queue:
  "tiki_queue_main (scenario (\<lambda>pid k. Response 200 (Some free_product))) [2]
     \<lparr>tiki_queue = [\<lparr>qid = 2, status = ''error'', last_error = Some ''404 Not Found''\<rparr>],
      tiki_product = [], tiki_error = [not_found_record 2]\<rparr> =
     \<lparr>tiki_queue = [\<lparr>qid = 2, status = ''done'', last_error = None\<rparr>],
      tiki_product = [\<lparr>id' = 2, name = PStr ''a'', url_key = PStr ''k'', price = PInt 0,
                       description = PStr ''d'', image_url = PStr ''u'',
                       missing_fields = PStr ''price''\<rparr>],
      tiki_error = [not_found_record 2]\<rparr>"
  by (simp add: tiki_queue_main_def run_defs fetch_200_tiki_queue scenario_simps)

section \<open>States at the end of a batch\<close>

lemma tiki_queue_main_uninterrupted:
  assumes "tiki_queue_uninterrupted d" "\<forall>b. set (sched e b) = set b"
    and "distinct (map qid (tiki_queue d))"
  shows "tiki_queue_uninterrupted (tiki_queue_main e ids d)"
proof -
  let ?d1 = "if length (tiki_queue d) = 0
             then d\<lparr>tiki_queue := tiki_queue_init_queue (tiki_queue d) (dedup ids)\<rparr> else d"
  let ?ps = "fetch_pending_or_error_ids (tiki_queue ?d1)"
  let ?bs = "chunks BATCH_SIZE ?ps"
  have "distinct (map qid (tiki_queue ?d1))"
    using assms(3) by (simp add: tiki_queue_init_queue_def insert_all_distinct)
  then have 1: "distinct ?ps" by (rule distinct_outstanding)
  have 2: "tiki_queue_main e ids d = tiki_queue_batches e (take (length ?bs) ?bs) ?d1"
    by (simp add: tiki_queue_main_def Let_def)
  show ?thesis
    using tiki_queue_whole_batches [OF assms(1) assms(2) refl 1 refl 2] .
qed

lemma main_main_uninterrupted:
  assumes "main_uninterrupted d" "\<forall>b. set (sched e b) = set b" "main_main e ids d = Inr d'"
  shows "main_uninterrupted d'"
proof -
  let ?d1 = "d\<lparr>tiki_queue := main_init_queue (tiki_queue d) ids\<rparr>"
  let ?bs = "chunks BATCH_SIZE (fetch_pending_ids (tiki_queue ?d1))"
  have "distinct (map qid (tiki_queue ?d1))"
    using main_uninterrupted_inv [OF assms(1)] by (simp add: main_init_queue_def insert_all_distinct)
  then have 1: "distinct (fetch_pending_ids (tiki_queue ?d1))" by (rule distinct_pending)
  have 2: "main_batches e (take (length ?bs) ?bs) ?d1 = Inr d'"
    using assms(3) by (simp add: main_main_def Let_def)
  show ?thesis using main_whole_batches [OF assms(1) assms(2) refl 1 refl 2] .
qed

lemma empty_db_uninterrupted: "main_uninterrupted empty_db" "tiki_queue_uninterrupted empty_db"
  by (simp_all add: main_initial tiki_queue_initial empty_db_def)

lemma sched_scenario: "\<forall>b. set (sched (scenario r) b) = set b"
  by (simp add: scenario_simps)

lemma uninterrupted_404_main:
  "main_uninterrupted \<lparr>tiki_queue = [\<lparr>qid = 2, status = ''error'',
                          last_error = Some ''Failed after retries''\<rparr>],
          tiki_product = [], tiki_error = [failure_dict 2]\<rparr>"
  using main_main_uninterrupted [OF empty_db_uninterrupted(1) sched_scenario run_404_main] .

lemma uninterrupted_404_tiki_queue:
  "tiki_queue_uninterrupted
     \<lparr>tiki_queue = [\<lparr>qid = 2, status = ''error'', last_error = Some ''404 Not Found''\<rparr>],
      tiki_product = [], tiki_error = [not_found_record 2]\<rparr>"
proof -
  have "distinct (map qid (tiki_queue empty_db))" by (simp add: empty_db_def)
  from tiki_queue_main_uninterrupted [OF empty_db_uninterrupted(2) sched_scenario this,
          of "\<lambda>pid k. Response 404 None" "[2]"]
  show ?thesis by (simp add: run_404_tiki_queue)
qed

lemma uninterrupted_404_then_200_tiki_queue:
  "tiki_queue_uninterrupted
     \<lparr>tiki_queue = [\<lparr>qid = 2, status = ''done'', last_error = None\<rparr>],
      tiki_product = [\<lparr>id' = 2, name = PStr ''a'', url_key = PStr ''k'', price = PInt 0,
                       description = PStr ''d'', image_url = PStr ''u'',
                       missing_fields = PStr ''price''\<rparr>],
      tiki_error = [not_found_record 2]\<rparr>"
  using tiki_queue_main_uninterrupted [OF uninterrupted_404_tiki_queue sched_scenario,
          of "\<lambda>pid k. Response 200 (Some free_product)" "[2]"]
  by (simp add: run_404_then_200_tiki_queue)

section \<open>Failed fetches and what a run records\<close>

lemma recorded_iff:
  "recorded x msg d \<longleftrightarrow>
     x \<in> set (tiki_error d) \<and> id' x \<in> qid ` set (tiki_queue d) \<and>
     (\<forall>row\<in>set (tiki_queue d). qid row = id' x \<longrightarrow>
        status row = ''error'' \<and> last_error row = Some msg)"
  by (auto simp: recorded_def list_all_iff)

lemma persist_recorded_new:
  assumes "id' x \<in> qid ` set (tiki_queue d)" "x \<in> set er"
    "\<forall>y\<in>set er. id' y = id' x \<longrightarrow> y = x" "id' x \<in> set E"
  shows "recorded x msg (persist g er E msg d)"
  unfolding recorded_iff
proof (intro conjI ballI impI)
  show "x \<in> set (tiki_error (persist g er E msg d))"
    using assms(2,3) by (simp add: persist_tables upsert_all_holds)
  show "id' x \<in> qid ` set (tiki_queue (persist g er E msg d))"
    using assms(1) by (simp add: persist_ids)
next
  fix row assume "row \<in> set (tiki_queue (persist g er E msg d))" "qid row = id' x"
  with assms(4) persist_error_row [of row g er E msg d]
  show "status row = ''error''" "last_error row = Some msg" by simp_all
qed

lemma persist_recorded_old:
  assumes "recorded x msg d" "id' x \<notin> set E" "id' x \<notin> id' ` set g" "id' x \<notin> id' ` set er"
  shows "recorded x msg (persist g er E msg d)"
  unfolding recorded_iff
proof (intro conjI ballI impI)
  show "x \<in> set (tiki_error (persist g er E msg d))"
    using assms(1,4) by (simp add: persist_tables upsert_all_keeps recorded_iff)
  show "id' x \<in> qid ` set (tiki_queue (persist g er E msg d))"
    using assms(1) by (simp add: persist_ids recorded_iff)
next
  fix row assume r: "row \<in> set (tiki_queue (persist g er E msg d))" "qid row = id' x"
  then have "row \<in> set (filter (\<lambda>r. qid r = id' x) (tiki_queue (persist g er E msg d)))" by simp
  then have "row \<in> set (tiki_queue d)"
    unfolding persist_other_rows [OF assms(2,3)] by simp
  with assms(1) r(2) show "status row = ''error''" "last_error row = Some msg"
    unfolding recorded_iff by simp_all
qed

lemma main_step_recorded:
  assumes f: "fst (main_attempts e pid [0..<RETRIES]) = None"
    and q: "pid \<in> qid ` set (tiki_queue d)"
    and c: "pid \<in> set xs \<or> recorded (failure_dict pid) msg d"
  shows "recorded (failure_dict pid) msg
           (persist (filter (\<lambda>r. \<not> all_none r) (map (main_outcome e) xs))
                    (filter all_none (map (main_outcome e) xs))
                    (map id' (filter all_none (map (main_outcome e) xs))) msg d)"
proof (cases "pid \<in> set xs")
  case True
  have i: "id' (failure_dict pid) = pid" by (simp add: failure_dict_def)
  show ?thesis
  proof (rule persist_recorded_new)
    show "id' (failure_dict pid) \<in> qid ` set (tiki_queue d)" using q i by simp
    show "failure_dict pid \<in> set (filter all_none (map (main_outcome e) xs))"
      unfolding main_errors_eq using True f by simp
    show "\<forall>y\<in>set (filter all_none (map (main_outcome e) xs)).
            id' y = id' (failure_dict pid) \<longrightarrow> y = failure_dict pid"
      unfolding main_errors_eq by (auto simp: failure_dict_def)
    show "id' (failure_dict pid) \<in> set (map id' (filter all_none (map (main_outcome e) xs)))"
      unfolding main_error_ids_eq using True f i by simp
  qed
next
  case False
  have i: "id' (failure_dict pid) = pid" by (simp add: failure_dict_def)
  have E: "set (map id' (filter all_none (map (main_outcome e) xs))) \<subseteq> set xs"
    unfolding main_error_ids_eq by auto
  have "id' ` set (filter (\<lambda>r. \<not> all_none r) (map (main_outcome e) xs)) =
          set (map id' (filter (\<lambda>r. \<not> all_none r) (map (main_outcome e) xs)))" by simp
  also have "\<dots> \<subseteq> set xs" unfolding main_good_ids_eq by auto
  finally have G: "id' ` set (filter (\<lambda>r. \<not> all_none r) (map (main_outcome e) xs)) \<subseteq> set xs" .
  show ?thesis
  proof (rule persist_recorded_old)
    show "recorded (failure_dict pid) msg d" using c False by simp
    show "id' (failure_dict pid) \<notin> set (map id' (filter all_none (map (main_outcome e) xs)))"
      using E False i by auto
    show "id' (failure_dict pid) \<notin> id' ` set (filter (\<lambda>r. \<not> all_none r) (map (main_outcome e) xs))"
      using G False i by auto
    show "id' (failure_dict pid) \<notin> id' ` set (filter all_none (map (main_outcome e) xs))"
      using E False i by auto
  qed
qed

lemma main_batches_recorded:
  assumes f: "fst (main_attempts e pid [0..<RETRIES]) = None"
  shows "pid \<in> qid ` set (tiki_queue d) \<Longrightarrow>
         pid \<in> set (concat (map (sched e) bs)) \<or> recorded (failure_dict pid) ''Failed after retries'' d \<Longrightarrow>
         \<exists>d'. main_batches e bs d = Inr d' \<and> recorded (failure_dict pid) ''Failed after retries'' d'"
proof (induction bs arbitrary: d)
  case Nil
  then show ?case by simp
next
  case (Cons b rest)
  let ?d1 = "persist (filter (\<lambda>r. \<not> all_none r) (map (main_outcome e) (sched e b)))
                     (filter all_none (map (main_outcome e) (sched e b)))
                     (map id' (filter all_none (map (main_outcome e) (sched e b))))
                     ''Failed after retries'' d"
  have 1: "pid \<in> qid ` set (tiki_queue ?d1)" using Cons.prems(1) by (simp add: persist_ids)
  show ?case
  proof (cases "pid \<in> set (sched e b) \<or> recorded (failure_dict pid) ''Failed after retries'' d")
    case True
    with f Cons.prems(1) have "recorded (failure_dict pid) ''Failed after retries'' ?d1"
      by (rule main_step_recorded)
    then have "pid \<in> set (concat (map (sched e) rest)) \<or>
               recorded (failure_dict pid) ''Failed after retries'' ?d1" by simp
    from Cons.IH [OF 1 this] show ?thesis by (simp only: main_batches_step)
  next
    case False
    with Cons.prems(2) have "pid \<in> set (concat (map (sched e) rest)) \<or>
               recorded (failure_dict pid) ''Failed after retries'' ?d1" by auto
    from Cons.IH [OF 1 this] show ?thesis by (simp only: main_batches_step)
  qed
qed

lemma tiki_queue_step_recorded:
  assumes f: "fst (tiki_queue_fetch_product e pid) = Inl (ProductNotFoundError pid)"
    and q: "pid \<in> qid ` set (tiki_queue d)"
    and c: "pid \<in> set (sched e b) \<or> recorded (not_found_record pid) ''404 Not Found'' d"
  shows "recorded (not_found_record pid) ''404 Not Found'' (fst (tiki_queue_process_batch e d b))"
proof (cases "pid \<in> set (sched e b)")
  case True
  have i: "id' (not_found_record pid) = pid" by (simp add: not_found_record_def)
  have "tiki_queue_not_found e pid = [pid]" using f by (simp add: tiki_queue_not_found_def)
  then have nf: "pid \<in> set (concat (map (tiki_queue_not_found e) (sched e b)))"
    using True by force
  show ?thesis
    unfolding tiki_queue_process_batch_persist
  proof (rule persist_recorded_new)
    show "id' (not_found_record pid) \<in> qid ` set (tiki_queue d)" using q i by simp
    show "not_found_record pid \<in>
            set (map not_found_record (concat (map (tiki_queue_not_found e) (sched e b))))"
      using nf by simp
    show "\<forall>y\<in>set (map not_found_record (concat (map (tiki_queue_not_found e) (sched e b)))).
            id' y = id' (not_found_record pid) \<longrightarrow> y = not_found_record pid"
      by (auto simp: not_found_record_def)
    show "id' (not_found_record pid) \<in> set (concat (map (tiki_queue_not_found e) (sched e b)))"
      using nf i by simp
  qed
next
  case False
  have i: "id' (not_found_record pid) = pid" by (simp add: not_found_record_def)
  show ?thesis
    unfolding tiki_queue_process_batch_persist
  proof (rule persist_recorded_old)
    show "recorded (not_found_record pid) ''404 Not Found'' d" using c False by simp
    show "id' (not_found_record pid) \<notin> set (concat (map (tiki_queue_not_found e) (sched e b)))"
      using tiki_queue_not_found_subset [of e "sched e b"] False i by auto
    show "id' (not_found_record pid) \<notin> id' ` set (concat (map (tiki_queue_good e) (sched e b)))"
      using tiki_queue_good_subset [of e "sched e b"] False i by auto
    show "id' (not_found_record pid) \<notin>
            id' ` set (map not_found_record (concat (map (tiki_queue_not_found e) (sched e b))))"
      unfolding not_found_record_ids
      using tiki_queue_not_found_subset [of e "sched e b"] False i by auto
  qed
qed

lemma tiki_queue_batches_recorded:
  assumes f: "fst (tiki_queue_fetch_product e pid) = Inl (ProductNotFoundError pid)"
  shows "pid \<in> qid ` set (tiki_queue d) \<Longrightarrow>
         pid \<in> set (concat (map (sched e) bs)) \<or> recorded (not_found_record pid) ''404 Not Found'' d \<Longrightarrow>
         recorded (not_found_record pid) ''404 Not Found'' (tiki_queue_batches e bs d)"
proof (induction bs arbitrary: d)
  case Nil
  then show ?case by simp
next
  case (Cons b rest)
  let ?d1 = "fst (tiki_queue_process_batch e d b)"
  have 1: "pid \<in> qid ` set (tiki_queue ?d1)"
    using Cons.prems(1) by (simp add: tiki_queue_process_batch_persist persist_ids)
  show ?case
  proof (cases "pid \<in> set (sched e b) \<or> recorded (not_found_record pid) ''404 Not Found'' d")
    case True
    with f Cons.prems(1) have "recorded (not_found_record pid) ''404 Not Found'' ?d1"
      by (rule tiki_queue_step_recorded)
    then have "pid \<in> set (concat (map (sched e) rest)) \<or>
               recorded (not_found_record pid) ''404 Not Found'' ?d1" by simp
    from Cons.IH [OF 1 this] show ?thesis by simp
  next
    case False
    with Cons.prems(2) have "pid \<in> set (concat (map (sched e) rest)) \<or>
               recorded (not_found_record pid) ''404 Not Found'' ?d1" by auto
    from Cons.IH [OF 1 this] show ?thesis by simp
  qed
qed

lemma upsert_all_other:
  "i \<notin> id' ` set rs \<Longrightarrow>
     filter (\<lambda>x. id' x = i) (foldl upsert_row t rs) = filter (\<lambda>x. id' x = i) t"
proof (induction rs arbitrary: t)
  case Nil
  then show ?case by simp
next
  case (Cons r rs)
  then have r: "id' r \<noteq> i" and rs: "i \<notin> id' ` set rs" by auto
  have "filter (\<lambda>x. id' x = i) (upsert_row t r) = filter (\<lambda>x. id' x = i) t"
  proof (cases "id' r \<in> id' ` set t")
    case True
    have "filter (\<lambda>x. id' x = i) (map (\<lambda>x. if id' x = id' r then r else x) t) =
          filter (\<lambda>x. id' x = i) t"
      using r by (induction t) auto
    with True show ?thesis by (simp add: upsert_row_def)
  next
    case False
    with r show ?thesis by (simp add: upsert_row_def)
  qed
  with Cons.IH [OF rs, of "upsert_row t r"] show ?case by simp
qed

lemma tiki_queue_step_untouched:
  assumes f: "fst (tiki_queue_fetch_product e pid) = Inr None"
  shows "filter (\<lambda>row. qid row = pid) (tiki_queue (fst (tiki_queue_process_batch e d b))) =
           filter (\<lambda>row. qid row = pid) (tiki_queue d)
       \<and> filter (\<lambda>x. id' x = pid) (tiki_error (fst (tiki_queue_process_batch e d b))) =
           filter (\<lambda>x. id' x = pid) (tiki_error d)
       \<and> filter (\<lambda>x. id' x = pid) (tiki_product (fst (tiki_queue_process_batch e d b))) =
           filter (\<lambda>x. id' x = pid) (tiki_product d)"
proof -
  let ?G = "concat (map (tiki_queue_good e) (sched e b))"
  let ?NF = "concat (map (tiki_queue_not_found e) (sched e b))"
  have g0: "tiki_queue_good e pid = []" and n0: "tiki_queue_not_found e pid = []"
    using f by (simp_all add: tiki_queue_good_def tiki_queue_not_found_def)
  have G: "pid \<notin> id' ` set ?G"
  proof
    assume "pid \<in> id' ` set ?G"
    then obtain r p where "r \<in> set (tiki_queue_good e p)" "id' r = pid" by auto
    with tiki_queue_good_ids [of r e p] g0 show False by auto
  qed
  have NF: "pid \<notin> set ?NF"
  proof
    assume "pid \<in> set ?NF"
    then obtain p where "pid \<in> set (tiki_queue_not_found e p)" by auto
    with tiki_queue_not_found_ids [of pid e p] n0 show False by auto
  qed
  have NF': "pid \<notin> id' ` set (map not_found_record ?NF)"
    unfolding not_found_record_ids by (rule NF)
  show ?thesis
    unfolding tiki_queue_process_batch_persist
    using persist_other_rows [OF NF G] upsert_all_other [OF NF'] upsert_all_other [OF G]
    by (simp add: persist_tables)
qed

lemma tiki_queue_batches_untouched:
  assumes f: "fst (tiki_queue_fetch_product e pid) = Inr None"
  shows "filter (\<lambda>row. qid row = pid) (tiki_queue (tiki_queue_batches e bs d)) =
           filter (\<lambda>row. qid row = pid) (tiki_queue d)
       \<and> filter (\<lambda>x. id' x = pid) (tiki_error (tiki_queue_batches e bs d)) =
           filter (\<lambda>x. id' x = pid) (tiki_error d)
       \<and> filter (\<lambda>x. id' x = pid) (tiki_product (tiki_queue_batches e bs d)) =
           filter (\<lambda>x. id' x = pid) (tiki_product d)"
proof (induction bs arbitrary: d)
  case Nil
  then show ?case by simp
next
  case (Cons b rest)
  from Cons [of "fst (tiki_queue_process_batch e d b)"] tiki_queue_step_untouched [OF f, of d b]
  show ?case by simp
qed

lemma tiki_queue_attempts_step:
  "(\<exists>x. tiki_queue_attempts e pid (b # rest) = (x, [Request b])) \<or>
   tiki_queue_attempts e pid (b # rest) =
     (fst (tiki_queue_attempts e pid rest),
      Request b # Sleep (2 * b) # snd (tiki_queue_attempts e pid rest))"
proof -
  obtain x tr where x: "tiki_queue_attempt e pid b = (x, tr)" by (cases "tiki_queue_attempt e pid b")
  show ?thesis
  proof (cases x)
    case (Inl ex)
    then have tr: "tr = [Request b]"
      using x by (auto simp: tiki_queue_attempt_def split: response.splits option.splits sum.splits if_splits)
    with x Inl show ?thesis by (cases ex) auto
  next
    case (Inr fl)
    have "tr = [Request b]" if "fl \<noteq> Continue"
      using x Inr that by (auto simp: tiki_queue_attempt_def split: response.splits option.splits sum.splits if_splits)
    moreover have "tr = [Request b, Sleep (2 * b)]" if "fl = Continue"
      using x Inr that by (auto simp: tiki_queue_attempt_def split: response.splits option.splits sum.splits if_splits)
    ultimately show ?thesis using x Inr by (cases fl) auto
  qed
qed

lemma main_attempts_step:
  "(\<exists>x. main_attempts e pid (b # rest) = (x, [Request b])) \<or>
   main_attempts e pid (b # rest) =
     (fst (main_attempts e pid rest), Request b # snd (main_attempts e pid rest)) \<or>
   main_attempts e pid (b # rest) =
     (fst (main_attempts e pid rest),
      Request b # Sleep (2 * (b + 1)) # snd (main_attempts e pid rest))"
proof -
  obtain x tr where x: "main_attempt e pid b = (x, tr)" by (cases "main_attempt e pid b")
  show ?thesis
  proof (cases x)
    case (Inl ex)
    then have "tr = [Request b]"
      using x by (auto simp: main_attempt_def split: response.splits option.splits sum.splits if_splits)
    with x Inl show ?thesis by simp
  next
    case (Inr fl)
    have "tr = [Request b]" if "fl \<noteq> Continue"
      using x Inr that by (auto simp: main_attempt_def split: response.splits option.splits sum.splits if_splits)
    moreover have "tr = [Request b, Sleep (2 * (b + 1))]" if "fl = Continue"
      using x Inr that by (auto simp: main_attempt_def split: response.splits option.splits sum.splits if_splits)
    ultimately show ?thesis using x Inr by (cases fl) auto
  qed
qed

lemma tiki_queue_404_ends:
  assumes "remote e pid (a - 1) = Response 404 body"
  shows "Request a \<in> set (snd (tiki_queue_attempts e pid as)) \<Longrightarrow>
         fst (tiki_queue_attempts e pid as) = Inl (ProductNotFoundError pid) \<and>
         (\<exists>pre. snd (tiki_queue_attempts e pid as) = pre @ [Request a])"
proof (induction as)
  case Nil
  then show ?case by simp
next
  case (Cons b rest)
  show ?case
  proof (cases "b = a")
    case True
    with tiki_queue_attempts_404 [OF assms, of rest] show ?thesis by simp
  next
    case False
    from tiki_queue_attempts_step [of e pid b rest]
    show ?thesis
    proof
      assume "\<exists>x. tiki_queue_attempts e pid (b # rest) = (x, [Request b])"
      with Cons.prems False show ?thesis by auto
    next
      assume s: "tiki_queue_attempts e pid (b # rest) =
        (fst (tiki_queue_attempts e pid rest),
         Request b # Sleep (2 * b) # snd (tiki_queue_attempts e pid rest))"
      with Cons.prems False have "Request a \<in> set (snd (tiki_queue_attempts e pid rest))" by simp
      from Cons.IH [OF this] obtain pre where
        "fst (tiki_queue_attempts e pid rest) = Inl (ProductNotFoundError pid)"
        "snd (tiki_queue_attempts e pid rest) = pre @ [Request a]" by blast
      with s have "fst (tiki_queue_attempts e pid (b # rest)) = Inl (ProductNotFoundError pid)"
        "snd (tiki_queue_attempts e pid (b # rest)) = (Request b # Sleep (2 * b) # pre) @ [Request a]"
        by simp_all
      then show ?thesis by blast
    qed
  qed
qed

lemma main_404_ends:
  assumes "remote e pid a = Response 404 body"
  shows "Request a \<in> set (snd (main_attempts e pid as)) \<Longrightarrow>
         fst (main_attempts e pid as) = None \<and>
         (\<exists>pre. snd (main_attempts e pid as) = pre @ [Request a])"
proof (induction as)
  case Nil
  then show ?case by simp
next
  case (Cons b rest)
  show ?case
  proof (cases "b = a")
    case True
    have "\<not> transient_status 404" by (simp add: transient_status_def)
    with main_attempts_break [OF assms, of rest] True show ?thesis by simp
  next
    case False
    from main_attempts_step [of e pid b rest]
    consider "\<exists>x. main_attempts e pid (b # rest) = (x, [Request b])"
      | tr where "main_attempts e pid (b # rest) =
          (fst (main_attempts e pid rest), tr @ snd (main_attempts e pid rest))"
          "tr = [Request b] \<or> tr = [Request b, Sleep (2 * (b + 1))]"
      by auto
    then show ?thesis
    proof cases
      case 1
      with Cons.prems False show ?thesis by auto
    next
      case 2
      with Cons.prems False have "Request a \<in> set (snd (main_attempts e pid rest))" by auto
      from Cons.IH [OF this] obtain pre where
        "fst (main_attempts e pid rest) = None"
        "snd (main_attempts e pid rest) = pre @ [Request a]" by blast
      with 2(1) have "fst (main_attempts e pid (b # rest)) = None"
        "snd (main_attempts e pid (b # rest)) = (tr @ pre) @ [Request a]"
        by simp_all
      then show ?thesis by blast
    qed
  qed
qed

text \<open>
  C3 (as amended). In \<open>tiki_queue.py\<close> a 404 response ends the fetch at once: the
  request that received it is the last event of the fetch, and the fetch raises
  \<open>ProductNotFoundError\<close>; a run that has the id in one of its batches then holds the
  record with \<open>missing_fields = "all_fields"\<close> in \<open>tiki_error\<close> and the id's queue
  row has status \<open>error\<close> with \<open>last_error = "404 Not Found"\<close>. In \<open>main.py\<close> a
  404 response also ends the fetch at once, but the fetch returns the placeholder with
  every field \<open>None\<close>, as it does after exhausted retries, and the run records it with
  \<open>last_error = "Failed after retries"\<close>.
\<close>

theorem C3_not_found:
  "(Request a \<in> set (snd (tiki_queue_fetch_product e pid)) \<and>
      remote e pid (a - 1) = Response 404 body \<longrightarrow>
      fst (tiki_queue_fetch_product e pid) = Inl (ProductNotFoundError pid) \<and>
      (\<exists>pre. snd (tiki_queue_fetch_product e pid) = pre @ [Request a]))
   \<and> (fst (tiki_queue_fetch_product e pid) = Inl (ProductNotFoundError pid) \<and>
      pid \<in> qid ` set (tiki_queue d) \<and> pid \<in> set (concat (map (sched e) bs)) \<longrightarrow>
      recorded (not_found_record pid) ''404 Not Found'' (tiki_queue_batches e bs d))
   \<and> (Request a \<in> set (snd (main_attempts e pid [0..<RETRIES])) \<and>
      remote e pid a = Response 404 body \<longrightarrow>
      fst (main_attempts e pid [0..<RETRIES]) = None \<and>
      (\<exists>pre. snd (main_attempts e pid [0..<RETRIES]) = pre @ [Request a]))
   \<and> (fst (main_attempts e pid [0..<RETRIES]) = None \<and>
      pid \<in> qid ` set (tiki_queue d) \<and> pid \<in> set (concat (map (sched e) bs)) \<longrightarrow>
      (\<exists>d'. main_batches e bs d = Inr d' \<and>
            recorded (failure_dict pid) ''Failed after retries'' d'))"
proof -
  have 1: "fst (tiki_queue_fetch_product e pid) = Inl (ProductNotFoundError pid) \<and>
      (\<exists>pre. snd (tiki_queue_fetch_product e pid) = pre @ [Request a])"
    if "Request a \<in> set (snd (tiki_queue_fetch_product e pid))"
       "remote e pid (a - 1) = Response 404 body"
    using tiki_queue_404_ends [OF that(2), of "[1..<RETRIES + 1]"] that(1)
    unfolding tiki_queue_fetch_product_def by blast
  have 2: "recorded (not_found_record pid) ''404 Not Found'' (tiki_queue_batches e bs d)"
    if "fst (tiki_queue_fetch_product e pid) = Inl (ProductNotFoundError pid)"
       "pid \<in> qid ` set (tiki_queue d)" "pid \<in> set (concat (map (sched e) bs))"
    using tiki_queue_batches_recorded [OF that(1,2)] that(3) by blast
  have 3: "fst (main_attempts e pid [0..<RETRIES]) = None \<and>
      (\<exists>pre. snd (main_attempts e pid [0..<RETRIES]) = pre @ [Request a])"
    if "Request a \<in> set (snd (main_attempts e pid [0..<RETRIES]))"
       "remote e pid a = Response 404 body"
    using main_404_ends [OF that(2) that(1)] .
  have 4: "\<exists>d'. main_batches e bs d = Inr d' \<and>
            recorded (failure_dict pid) ''Failed after retries'' d'"
    if "fst (main_attempts e pid [0..<RETRIES]) = None"
       "pid \<in> qid ` set (tiki_queue d)" "pid \<in> set (concat (map (sched e) bs))"
    using main_batches_recorded [OF that(1,2)] that(3) by blast
  show ?thesis using 1 2 3 4 by blast
qed

text \<open>
  C2 (as amended). In \<open>main.py\<close>, when the fetch of an id has sent \<open>RETRIES\<close>
  requests and ended without a result, a run that has the id in one of its batches holds
  the placeholder record of the id in \<open>tiki_error\<close> and the id's queue row has status
  \<open>error\<close> with \<open>last_error = "Failed after retries"\<close>. In \<open>tiki_queue.py\<close> such a
  fetch returns \<open>None\<close>, and the run leaves the queue rows and the error records of
  the id as they were.
\<close>

theorem C2_exhausted:
  "(fst (main_attempts e pid [0..<RETRIES]) = None \<and>
      length (requests (snd (main_attempts e pid [0..<RETRIES]))) = RETRIES \<and>
      pid \<in> qid ` set (tiki_queue d) \<and> pid \<in> set (concat (map (sched e) bs)) \<longrightarrow>
      (\<exists>d'. main_batches e bs d = Inr d' \<and>
            recorded (failure_dict pid) ''Failed after retries'' d'))
   \<and> (fst (tiki_queue_fetch_product e pid) = Inr None \<and>
      length (requests (snd (tiki_queue_fetch_product e pid))) = RETRIES \<longrightarrow>
      filter (\<lambda>row. qid row = pid) (tiki_queue (tiki_queue_batches e bs d)) =
        filter (\<lambda>row. qid row = pid) (tiki_queue d) \<and>
      filter (\<lambda>x. id' x = pid) (tiki_error (tiki_queue_batches e bs d)) =
        filter (\<lambda>x. id' x = pid) (tiki_error d))"
proof -
  have 1: "\<exists>d'. main_batches e bs d = Inr d' \<and>
            recorded (failure_dict pid) ''Failed after retries'' d'"
    if "fst (main_attempts e pid [0..<RETRIES]) = None"
       "pid \<in> qid ` set (tiki_queue d)" "pid \<in> set (concat (map (sched e) bs))"
    using main_batches_recorded [OF that(1,2)] that(3) by blast
  have 2: "filter (\<lambda>row. qid row = pid) (tiki_queue (tiki_queue_batches e bs d)) =
        filter (\<lambda>row. qid row = pid) (tiki_queue d) \<and>
      filter (\<lambda>x. id' x = pid) (tiki_error (tiki_queue_batches e bs d)) =
        filter (\<lambda>x. id' x = pid) (tiki_error d)"
    if "fst (tiki_queue_fetch_product e pid) = Inr None"
    using tiki_queue_batches_untouched [OF that, of bs d] by blast
  show ?thesis using 1 2 by blast
qed

theorem C3_not_found_witness:
  "Request 1 \<in> set (snd (tiki_queue_fetch_product (scenario (\<lambda>pid k. Response 404 None)) 2))
   \<and> remote (scenario (\<lambda>pid k. Response 404 None)) 2 (1 - 1) = Response 404 None
   \<and> fst (tiki_queue_fetch_product (scenario (\<lambda>pid k. Response 404 None)) 2) =
       Inl (ProductNotFoundError 2)
   \<and> snd (tiki_queue_fetch_product (scenario (\<lambda>pid k. Response 404 None)) 2) = [Request 1]
   \<and> 2 \<in> qid ` set (tiki_queue (pending_db [2]))
   \<and> 2 \<in> set (concat (map (sched (scenario (\<lambda>pid k. Response 404 None))) [[2]]))
   \<and> recorded (not_found_record 2) ''404 Not Found''
        (tiki_queue_batches (scenario (\<lambda>pid k. Response 404 None)) [[2]] (pending_db [2]))
   \<and> Request 0 \<in> set (snd (main_attempts (scenario (\<lambda>pid k. Response 404 None)) 2 [0..<RETRIES]))
   \<and> main_attempts (scenario (\<lambda>pid k. Response 404 None)) 2 [0..<RETRIES] = (None, [Request 0])
   \<and> (\<exists>d'. main_batches (scenario (\<lambda>pid k. Response 404 None)) [[2]] (pending_db [2]) = Inr d' \<and>
            recorded (failure_dict 2) ''Failed after retries'' d')"
  using C3_not_found [of 1 "scenario (\<lambda>pid k. Response 404 None)" 2 None "pending_db [2]" "[[2]]"]
        C3_not_found [of 0 "scenario (\<lambda>pid k. Response 404 None)" 2 None "pending_db [2]" "[[2]]"]
  by (simp add: fetch_404_tiki_queue fetch_404_main scenario_simps pending_db_def)

text \<open>
  Against C3 as stated: in \<open>main.py\<close> a run in which the id answers 404 and a run in
  which it answers 503 five times end in the same state, with the same diagnostic.
\<close>

theorem C3_main_404_same_diagnostic:
  "remote (scenario (\<lambda>pid k. Response 404 None)) 2 0 = Response 404 None
   \<and> main_main (scenario (\<lambda>pid k. Response 404 None)) [2] empty_db =
       Inr \<lparr>tiki_queue = [\<lparr>qid = 2, status = ''error'',
                            last_error = Some ''Failed after retries''\<rparr>],
            tiki_product = [], tiki_error = [failure_dict 2]\<rparr>
   \<and> main_main (scenario (\<lambda>pid k. Response 503 None)) [2] empty_db =
       Inr \<lparr>tiki_queue = [\<lparr>qid = 2, status = ''error'',
                            last_error = Some ''Failed after retries''\<rparr>],
            tiki_product = [], tiki_error = [failure_dict 2]\<rparr>"
  by (simp add: run_404_main run_503_main scenario_simps)

theorem C2_exhausted_witness:
  "fst (main_attempts (scenario (\<lambda>pid k. Response 503 None)) 2 [0..<RETRIES]) = None
   \<and> length (requests (snd (main_attempts (scenario (\<lambda>pid k. Response 503 None)) 2 [0..<RETRIES])))
       = RETRIES
   \<and> 2 \<in> qid ` set (tiki_queue (pending_db [2]))
   \<and> 2 \<in> set (concat (map (sched (scenario (\<lambda>pid k. Response 503 None))) [[2]]))
   \<and> (\<exists>d'. main_batches (scenario (\<lambda>pid k. Response 503 None)) [[2]] (pending_db [2]) = Inr d' \<and>
            recorded (failure_dict 2) ''Failed after retries'' d')
   \<and> fst (tiki_queue_fetch_product (scenario (\<lambda>pid k. Response 503 None)) 2) = Inr None
   \<and> length (requests (snd (tiki_queue_fetch_product (scenario (\<lambda>pid k. Response 503 None)) 2)))
       = RETRIES
   \<and> filter (\<lambda>row. qid row = 2)
        (tiki_queue (tiki_queue_batches (scenario (\<lambda>pid k. Response 503 None)) [[2]]
                       (pending_db [2]))) =
      filter (\<lambda>row. qid row = 2) (tiki_queue (pending_db [2]))
   \<and> filter (\<lambda>x. id' x = 2)
        (tiki_error (tiki_queue_batches (scenario (\<lambda>pid k. Response 503 None)) [[2]]
                       (pending_db [2]))) =
      filter (\<lambda>x. id' x = 2) (tiki_error (pending_db [2]))"
proof -
  let ?e = "scenario (\<lambda>pid k. Response 503 None)"
  have m1: "fst (main_attempts ?e 2 [0..<RETRIES]) = None"
    by (simp add: fetch_503_main)
  have m2: "length (requests (snd (main_attempts ?e 2 [0..<RETRIES]))) = RETRIES"
    unfolding fetch_503_main by (simp add: RETRIES_def)
  have q: "2 \<in> qid ` set (tiki_queue (pending_db [2]))"
    by (simp add: pending_db_def)
  have b: "2 \<in> set (concat (map (sched ?e) [[2]]))"
    by (simp add: scenario_simps)
  have t1: "fst (tiki_queue_fetch_product ?e 2) = Inr None"
    by (simp add: fetch_503_tiki_queue)
  have t2: "length (requests (snd (tiki_queue_fetch_product ?e 2))) = RETRIES"
    unfolding fetch_503_tiki_queue by (simp add: RETRIES_def)
  from C2_exhausted [of ?e 2 "pending_db [2]" "[[2]]"] m1 m2 q b t1 t2 show ?thesis by blast
qed

text \<open>
  Against C2 as stated: in \<open>tiki_queue.py\<close> an id that answers 503 five times is left
  pending, with no error record.
\<close>

theorem C2_tiki_queue_exhausted_not_recorded:
  "fst (tiki_queue_fetch_product (scenario (\<lambda>pid k. Response 503 None)) 2) = Inr None
   \<and> length (requests (snd (tiki_queue_fetch_product (scenario (\<lambda>pid k. Response 503 None)) 2)))
       = RETRIES
   \<and> tiki_queue_main (scenario (\<lambda>pid k. Response 503 None)) [2] empty_db =
       \<lparr>tiki_queue = [\<lparr>qid = 2, status = ''pending'', last_error = None\<rparr>],
        tiki_product = [], tiki_error = []\<rparr>"
proof -
  have "length (requests (snd (tiki_queue_fetch_product (scenario (\<lambda>pid k. Response 503 None)) 2)))
       = RETRIES"
    unfolding fetch_503_tiki_queue by (simp add: RETRIES_def)
  then show ?thesis by (simp add: fetch_503_tiki_queue run_503_tiki_queue)
qed

section \<open>Routing of returned dictionaries\<close>

lemma fetch_empty_main:
  "main_attempts (scenario (\<lambda>pid k. Response 200 (Some empty_payload))) pid [0..<RETRIES] =
     (Some (empty_record pid), [Request 0])"
  unfolding attempts_main
  by (simp add: main_attempt_def scenario_def empty_payload_def empty_record_def main_result_def
      result_dict_def ebind_def main_clean_text_def first_image_def with_missing_def
      main_missing_def items_def)


text \<open>
  In \<open>main.py\<close> a payload with a name makes \<open>clean_text\<close> raise in every attempt: the
  five requests follow each other with no sleep, and the fetch ends without a result.
\<close>

lemma fetch_200_main:
  "main_attempts (scenario (\<lambda>pid k. Response 200 (Some free_product))) pid [0..<RETRIES] =
     (None, [Request 0, Request 1, Request 2, Request 3, Request 4])"
  unfolding attempts_main
  by (simp add: main_attempt_def scenario_def free_product_def main_result_def result_dict_def
      ebind_def main_clean_text_def)



text \<open>
  The dictionary built from a 200 response holds strings under \<open>name\<close>,
  \<open>description\<close> and \<open>missing_fields\<close> (see also \<open>main_result_not_all_none\<close>), so
  the test of \<open>process_batch\<close> holds for the placeholder of a failed fetch only.
\<close>

lemma tiki_queue_result_not_all_none: "tiki_queue_result e pid data = Inr r \<Longrightarrow> \<not> all_none r"
  using tiki_queue_result_shape [of e pid data r] by (auto simp: all_none_iff)









section \<open>Sleeps between the attempts\<close>

lemma main_raises_iff:
  "main_raises e pid a \<longleftrightarrow>
     remote e pid a = TransportFailure \<or> remote e pid a = Response 200 None \<or>
     (\<exists>data ex. remote e pid a = Response 200 (Some data) \<and> main_result pid data = Inl ex)"
  by (auto simp: main_raises_def main_attempt_def
           split: response.splits option.splits sum.splits if_splits)

lemma tiki_queue_raises_iff:
  "tiki_queue_raises e pid a \<longleftrightarrow>
     remote e pid (a - 1) = TransportFailure \<or> remote e pid (a - 1) = Response 200 None \<or>
     (\<exists>data ex. remote e pid (a - 1) = Response 200 (Some data) \<and>
                tiki_queue_result e pid data = Inl ex)"
proof -
  have "\<not> (\<exists>p. ex = ProductNotFoundError p)" if "tiki_queue_result e pid data = Inl ex" for data ex
    using that tiki_queue_result_error [of e pid data] by auto
  then have c: "(case ex of ProductNotFoundError p \<Rightarrow> False | _ \<Rightarrow> True)"
    if "tiki_queue_result e pid data = Inl ex" for data ex
    using that by (cases ex) auto
  show ?thesis
    using c
    by (auto simp: tiki_queue_raises_def tiki_queue_attempt_def
           split: response.splits option.splits sum.splits if_splits)
qed

lemma main_attempts_raises:
  assumes "main_raises e pid a"
  shows "main_attempts e pid (a # rest) =
           (fst (main_attempts e pid rest), Request a # snd (main_attempts e pid rest))"
proof -
  obtain x tr where x: "main_attempt e pid a = (x, tr)" by (cases "main_attempt e pid a")
  with assms obtain ex where ex: "x = Inl ex" by (cases x) (simp_all add: main_raises_def)
  have "tr = [Request a]"
    using x ex by (auto simp: main_attempt_def split: response.splits option.splits sum.splits if_splits)
  with x ex show ?thesis by simp
qed

lemma tiki_queue_attempts_raises:
  assumes "tiki_queue_raises e pid a"
  shows "tiki_queue_attempts e pid (a # rest) =
           (fst (tiki_queue_attempts e pid rest),
            [Request a, Sleep (2 * a)] @ snd (tiki_queue_attempts e pid rest))"
proof -
  obtain x tr where x: "tiki_queue_attempt e pid a = (x, tr)" by (cases "tiki_queue_attempt e pid a")
  with assms obtain ex where ex: "x = Inl ex"
    "(case ex of ProductNotFoundError p \<Rightarrow> False | _ \<Rightarrow> True)"
    by (cases x) (simp_all add: tiki_queue_raises_def)
  have "tr = [Request a]"
    using x ex(1) by (auto simp: tiki_queue_attempt_def split: response.splits option.splits sum.splits if_splits)
  with x ex show ?thesis by (cases ex) simp_all
qed

lemma tiki_queue_attempts_sleep:
  assumes "transient (remote e pid (a - 1)) \<or> tiki_queue_raises e pid a"
  shows "tiki_queue_attempts e pid (a # rest) =
           (fst (tiki_queue_attempts e pid rest),
            [Request a, Sleep (2 * a)] @ snd (tiki_queue_attempts e pid rest))"
proof (cases "tiki_queue_raises e pid a")
  case True
  then show ?thesis by (rule tiki_queue_attempts_raises)
next
  case False
  with assms have "transient (remote e pid (a - 1))" by simp
  then show ?thesis by (rule tiki_queue_attempts_transient)
qed

lemma tiki_queue_attempts_sleeps:
  assumes "\<forall>a\<in>set xs. transient (remote e pid (a - 1)) \<or> tiki_queue_raises e pid a"
  shows "tiki_queue_attempts e pid (xs @ ys) =
           (fst (tiki_queue_attempts e pid ys),
            concat (map (\<lambda>a. [Request a, Sleep (2 * a)]) xs) @ snd (tiki_queue_attempts e pid ys))"
  using assms
proof (induction xs)
  case Nil
  then show ?case by simp
next
  case (Cons a xs)
  then have "transient (remote e pid (a - 1)) \<or> tiki_queue_raises e pid a" by simp
  from tiki_queue_attempts_sleep [OF this, of "xs @ ys"] Cons
  show ?case by (simp del: tiki_queue_attempts.simps)
qed

lemma main_attempts_outcome:
  assumes "transient (remote e pid a) \<or> main_raises e pid a"
  shows "main_attempts e pid (a # rest) =
           (fst (main_attempts e pid rest),
            (if main_raises e pid a then [Request a] else [Request a, Sleep (2 * (a + 1))]) @
            snd (main_attempts e pid rest))"
proof (cases "main_raises e pid a")
  case True
  then show ?thesis using main_attempts_raises [of e pid a rest] by simp
next
  case False
  then have "remote e pid a \<noteq> TransportFailure" by (simp add: main_raises_iff)
  with assms False obtain st body where "remote e pid a = Response st body" "transient_status st"
    by (cases "remote e pid a") auto
  from main_attempts_transient_status [OF this, of rest] False show ?thesis by simp
qed

lemma main_attempts_outcomes:
  assumes "\<forall>a\<in>set xs. transient (remote e pid a) \<or> main_raises e pid a"
  shows "main_attempts e pid (xs @ ys) =
           (fst (main_attempts e pid ys),
            concat (map (\<lambda>a. if main_raises e pid a then [Request a]
                             else [Request a, Sleep (2 * (a + 1))]) xs) @
            snd (main_attempts e pid ys))"
  using assms
proof (induction xs)
  case Nil
  then show ?case by simp
next
  case (Cons a xs)
  then have "transient (remote e pid a) \<or> main_raises e pid a" by simp
  from main_attempts_outcome [OF this, of "xs @ ys"] Cons
  show ?case by (simp del: main_attempts.simps)
qed

lemma tiki_queue_fetch_split:
  assumes "n \<le> RETRIES"
    "\<forall>k<n. transient (remote e pid k) \<or> tiki_queue_raises e pid (Suc k)"
  shows "tiki_queue_fetch_product e pid =
           (fst (tiki_queue_attempts e pid [Suc n..<Suc RETRIES]),
            concat (map (\<lambda>a. [Request a, Sleep (2 * a)]) [1..<Suc n]) @
            snd (tiki_queue_attempts e pid [Suc n..<Suc RETRIES]))"
proof -
  have "[1..<1 + RETRIES] = [1..<1 + n] @ [1 + n..<1 + RETRIES]"
    using assms(1) by (rule upt_split)
  then have s: "[1..<RETRIES + 1] = [1..<Suc n] @ [Suc n..<Suc RETRIES]" by simp
  have "\<forall>a\<in>set [1..<Suc n]. transient (remote e pid (a - 1)) \<or> tiki_queue_raises e pid a"
  proof
    fix a assume "a \<in> set [1..<Suc n]"
    then have "a - 1 < n" "Suc (a - 1) = a" by auto
    with assms(2) show "transient (remote e pid (a - 1)) \<or> tiki_queue_raises e pid a"
      by metis
  qed
  from tiki_queue_attempts_sleeps [OF this, of "[Suc n..<Suc RETRIES]"]
  show ?thesis unfolding tiki_queue_fetch_product_def s .
qed

lemma main_attempts_split:
  assumes "n \<le> RETRIES"
    "\<forall>k<n. transient (remote e pid k) \<or> main_raises e pid k"
  shows "main_attempts e pid [0..<RETRIES] =
           (fst (main_attempts e pid [n..<RETRIES]),
            concat (map (\<lambda>a. if main_raises e pid a then [Request a]
                             else [Request a, Sleep (2 * (a + 1))]) [0..<n]) @
            snd (main_attempts e pid [n..<RETRIES]))"
proof -
  have "[0..<0 + RETRIES] = [0..<0 + n] @ [0 + n..<0 + RETRIES]"
    using assms(1) by (rule upt_split)
  then have s: "[0..<RETRIES] = [0..<n] @ [n..<RETRIES]" by simp
  have "\<forall>a\<in>set [0..<n]. transient (remote e pid a) \<or> main_raises e pid a"
    using assms(2) by auto
  from main_attempts_outcomes [OF this, of "[n..<RETRIES]"]
  show ?thesis unfolding s [symmetric] by (simp add: s)
qed


text \<open>
  C4, as the scripts have it. An attempt of \<open>tiki_queue.py\<close> that is answered with one
  of the five statuses, or that raises an exception other than \<open>ProductNotFoundError\<close>
  (a failure of the transport, a 200 response whose body cannot be decoded or
  normalised), is followed by a sleep of twice the attempt number and then by the rest of
  the loop. In \<open>main.py\<close> only the five statuses are followed by that sleep; an attempt
  that raises is followed by the rest of the loop at once. In both scripts a status that
  is neither 200 nor one of the five (nor, in \<open>tiki_queue.py\<close>, 404) ends the fetch at
  once, the sleeps of a fetch never decrease, a fetch sends at most \<open>RETRIES\<close>
  requests, and it ends without a result after exactly \<open>RETRIES\<close> requests when all of
  them have such outcomes.
\<close>

theorem C4_backoff:
  "(tiki_queue_raises e pid a \<longleftrightarrow>
      remote e pid (a - 1) = TransportFailure \<or> remote e pid (a - 1) = Response 200 None \<or>
      (\<exists>data ex. remote e pid (a - 1) = Response 200 (Some data) \<and>
                 tiki_queue_result e pid data = Inl ex))
   \<and> (transient (remote e pid (a - 1)) \<or> tiki_queue_raises e pid a \<longrightarrow>
        tiki_queue_attempts e pid (a # rest) =
          (fst (tiki_queue_attempts e pid rest),
           [Request a, Sleep (2 * a)] @ snd (tiki_queue_attempts e pid rest)))
   \<and> (other_status (remote e pid (a - 1)) \<longrightarrow>
        tiki_queue_attempts e pid (a # rest) = (Inr None, [Request a]))
   \<and> (n \<le> RETRIES \<and>
        (\<forall>k<n. transient (remote e pid k) \<or> tiki_queue_raises e pid (Suc k)) \<longrightarrow>
        tiki_queue_fetch_product e pid =
          (fst (tiki_queue_attempts e pid [Suc n..<Suc RETRIES]),
           concat (map (\<lambda>a. [Request a, Sleep (2 * a)]) [1..<Suc n]) @
           snd (tiki_queue_attempts e pid [Suc n..<Suc RETRIES])))
   \<and> ((\<forall>k<RETRIES. transient (remote e pid k) \<or> tiki_queue_raises e pid (Suc k)) \<longrightarrow>
        tiki_queue_fetch_product e pid =
          (Inr None, concat (map (\<lambda>a. [Request a, Sleep (2 * a)]) [1..<Suc RETRIES])))
   \<and> (n < RETRIES \<and>
        (\<forall>k<n. transient (remote e pid k) \<or> tiki_queue_raises e pid (Suc k)) \<and>
        other_status (remote e pid n) \<longrightarrow>
        tiki_queue_fetch_product e pid =
          (Inr None, concat (map (\<lambda>a. [Request a, Sleep (2 * a)]) [1..<Suc n]) @ [Request (Suc n)]))
   \<and> sorted (sleeps (snd (tiki_queue_fetch_product e pid)))
   \<and> length (requests (snd (tiki_queue_fetch_product e pid))) \<le> RETRIES
   \<and> (main_raises e pid a \<longleftrightarrow>
        remote e pid a = TransportFailure \<or> remote e pid a = Response 200 None \<or>
        (\<exists>data ex. remote e pid a = Response 200 (Some data) \<and> main_result pid data = Inl ex))
   \<and> (main_raises e pid a \<longrightarrow>
        main_attempts e pid (a # rest) =
          (fst (main_attempts e pid rest), Request a # snd (main_attempts e pid rest)))
   \<and> ((\<exists>st body. remote e pid a = Response st body \<and> transient_status st) \<longrightarrow>
        main_attempts e pid (a # rest) =
          (fst (main_attempts e pid rest),
           [Request a, Sleep (2 * (a + 1))] @ snd (main_attempts e pid rest)))
   \<and> ((\<exists>st body. remote e pid a = Response st body \<and> st \<noteq> 200 \<and> \<not> transient_status st) \<longrightarrow>
        main_attempts e pid (a # rest) = (None, [Request a]))
   \<and> (n \<le> RETRIES \<and> (\<forall>k<n. transient (remote e pid k) \<or> main_raises e pid k) \<longrightarrow>
        main_attempts e pid [0..<RETRIES] =
          (fst (main_attempts e pid [n..<RETRIES]),
           concat (map (\<lambda>a. if main_raises e pid a then [Request a]
                            else [Request a, Sleep (2 * (a + 1))]) [0..<n]) @
           snd (main_attempts e pid [n..<RETRIES])))
   \<and> ((\<forall>k<RETRIES. transient (remote e pid k) \<or> main_raises e pid k) \<longrightarrow>
        main_attempts e pid [0..<RETRIES] =
          (None, concat (map (\<lambda>a. if main_raises e pid a then [Request a]
                                  else [Request a, Sleep (2 * (a + 1))]) [0..<RETRIES])))
   \<and> ((\<forall>k<RETRIES. \<exists>st body. remote e pid k = Response st body \<and> transient_status st) \<longrightarrow>
        main_attempts e pid [0..<RETRIES] =
          (None, concat (map (\<lambda>a. [Request a, Sleep (2 * (a + 1))]) [0..<RETRIES])))
   \<and> ((\<forall>k<RETRIES. main_raises e pid k) \<longrightarrow>
        main_attempts e pid [0..<RETRIES] = (None, map Request [0..<RETRIES]))
   \<and> (n < RETRIES \<and> (\<forall>k<n. transient (remote e pid k) \<or> main_raises e pid k) \<and>
        (\<exists>st body. remote e pid n = Response st body \<and> st \<noteq> 200 \<and> \<not> transient_status st) \<longrightarrow>
        main_attempts e pid [0..<RETRIES] =
          (None, concat (map (\<lambda>a. if main_raises e pid a then [Request a]
                                  else [Request a, Sleep (2 * (a + 1))]) [0..<n]) @ [Request n]))
   \<and> sorted (sleeps (snd (main_attempts e pid [0..<RETRIES])))
   \<and> length (requests (snd (main_attempts e pid [0..<RETRIES]))) \<le> RETRIES"
proof -
  have t0: "tiki_queue_raises e pid a \<longleftrightarrow>
      remote e pid (a - 1) = TransportFailure \<or> remote e pid (a - 1) = Response 200 None \<or>
      (\<exists>data ex. remote e pid (a - 1) = Response 200 (Some data) \<and>
                 tiki_queue_result e pid data = Inl ex)"
    by (rule tiki_queue_raises_iff)
  have t1: "tiki_queue_attempts e pid (a # rest) =
          (fst (tiki_queue_attempts e pid rest),
           [Request a, Sleep (2 * a)] @ snd (tiki_queue_attempts e pid rest))"
    if "transient (remote e pid (a - 1)) \<or> tiki_queue_raises e pid a"
    using that by (rule tiki_queue_attempts_sleep)
  have t2: "tiki_queue_attempts e pid (a # rest) = (Inr None, [Request a])"
    if "other_status (remote e pid (a - 1))"
    using that by (rule tiki_queue_attempts_other)
  have t3: "tiki_queue_fetch_product e pid =
          (fst (tiki_queue_attempts e pid [Suc n..<Suc RETRIES]),
           concat (map (\<lambda>a. [Request a, Sleep (2 * a)]) [1..<Suc n]) @
           snd (tiki_queue_attempts e pid [Suc n..<Suc RETRIES]))"
    if "n \<le> RETRIES" "\<forall>k<n. transient (remote e pid k) \<or> tiki_queue_raises e pid (Suc k)"
    using that by (rule tiki_queue_fetch_split)
  have t4: "tiki_queue_fetch_product e pid =
          (Inr None, concat (map (\<lambda>a. [Request a, Sleep (2 * a)]) [1..<Suc RETRIES]))"
    if "\<forall>k<RETRIES. transient (remote e pid k) \<or> tiki_queue_raises e pid (Suc k)"
    using tiki_queue_fetch_split [OF le_refl that] by simp
  have t5: "tiki_queue_fetch_product e pid =
          (Inr None, concat (map (\<lambda>a. [Request a, Sleep (2 * a)]) [1..<Suc n]) @ [Request (Suc n)])"
    if n: "n < RETRIES"
      and tr: "\<forall>k<n. transient (remote e pid k) \<or> tiki_queue_raises e pid (Suc k)"
      and o: "other_status (remote e pid n)"
  proof -
    have "[Suc n..<Suc RETRIES] = Suc n # [Suc (Suc n)..<Suc RETRIES]"
      using n by (simp add: upt_conv_Cons)
    moreover have "other_status (remote e pid (Suc n - 1))" using o by simp
    ultimately have "tiki_queue_attempts e pid [Suc n..<Suc RETRIES] = (Inr None, [Request (Suc n)])"
      using tiki_queue_attempts_other by metis
    with tiki_queue_fetch_split [OF less_imp_le [OF n] tr] show ?thesis by simp
  qed
  have t6: "sorted (sleeps (snd (tiki_queue_fetch_product e pid)))"
    unfolding tiki_queue_fetch_product_def by (rule tiki_queue_sleeps_sorted) (rule sorted_upt)
  have t7: "length (requests (snd (tiki_queue_fetch_product e pid))) \<le> RETRIES"
  proof -
    have "length (requests (snd (tiki_queue_attempts e pid [1..<RETRIES + 1])))
            \<le> length [1..<RETRIES + 1]"
      by (rule tiki_queue_requests_length)
    also have "\<dots> = RETRIES" by (simp del: upt_Suc)
    finally show ?thesis unfolding tiki_queue_fetch_product_def .
  qed
  have m0: "main_raises e pid a \<longleftrightarrow>
        remote e pid a = TransportFailure \<or> remote e pid a = Response 200 None \<or>
        (\<exists>data ex. remote e pid a = Response 200 (Some data) \<and> main_result pid data = Inl ex)"
    by (rule main_raises_iff)
  have m1: "main_attempts e pid (a # rest) =
          (fst (main_attempts e pid rest), Request a # snd (main_attempts e pid rest))"
    if "main_raises e pid a"
    using that by (rule main_attempts_raises)
  have m2: "main_attempts e pid (a # rest) =
          (fst (main_attempts e pid rest),
           [Request a, Sleep (2 * (a + 1))] @ snd (main_attempts e pid rest))"
    if "\<exists>st body. remote e pid a = Response st body \<and> transient_status st"
    using that main_attempts_transient_status by blast
  have m3: "main_attempts e pid (a # rest) = (None, [Request a])"
    if "\<exists>st body. remote e pid a = Response st body \<and> st \<noteq> 200 \<and> \<not> transient_status st"
    using that main_attempts_break by blast
  have m4: "main_attempts e pid [0..<RETRIES] =
          (fst (main_attempts e pid [n..<RETRIES]),
           concat (map (\<lambda>a. if main_raises e pid a then [Request a]
                            else [Request a, Sleep (2 * (a + 1))]) [0..<n]) @
           snd (main_attempts e pid [n..<RETRIES]))"
    if "n \<le> RETRIES" "\<forall>k<n. transient (remote e pid k) \<or> main_raises e pid k"
    using that by (rule main_attempts_split)
  have m5: "main_attempts e pid [0..<RETRIES] =
          (None, concat (map (\<lambda>a. if main_raises e pid a then [Request a]
                                  else [Request a, Sleep (2 * (a + 1))]) [0..<RETRIES]))"
    if "\<forall>k<RETRIES. transient (remote e pid k) \<or> main_raises e pid k"
    using main_attempts_split [OF le_refl that] by simp
  have m6: "main_attempts e pid [0..<RETRIES] =
          (None, concat (map (\<lambda>a. [Request a, Sleep (2 * (a + 1))]) [0..<RETRIES]))"
    if "\<forall>k<RETRIES. \<exists>st body. remote e pid k = Response st body \<and> transient_status st"
    using main_attempts_prefix [OF le_refl that] by simp
  have m7: "main_attempts e pid [0..<RETRIES] = (None, map Request [0..<RETRIES])"
    if r: "\<forall>k<RETRIES. main_raises e pid k"
  proof -
    have "concat (map (\<lambda>a. if main_raises e pid a then [Request a]
                           else [Request a, Sleep (2 * (a + 1))]) [0..<RETRIES]) =
          concat (map (\<lambda>a. [Request a]) [0..<RETRIES])"
      using r by (intro arg_cong [where f = concat] map_cong) auto
    also have "\<dots> = map Request [0..<RETRIES]" by (induction "[0..<RETRIES]") auto
    finally show ?thesis using m5 r by simp
  qed
  have m8: "main_attempts e pid [0..<RETRIES] =
          (None, concat (map (\<lambda>a. if main_raises e pid a then [Request a]
                                  else [Request a, Sleep (2 * (a + 1))]) [0..<n]) @ [Request n])"
    if n: "n < RETRIES"
      and tr: "\<forall>k<n. transient (remote e pid k) \<or> main_raises e pid k"
      and o: "\<exists>st body. remote e pid n = Response st body \<and> st \<noteq> 200 \<and> \<not> transient_status st"
  proof -
    have "[n..<RETRIES] = n # [Suc n..<RETRIES]" using n by (simp add: upt_conv_Cons)
    then have "main_attempts e pid [n..<RETRIES] = (None, [Request n])"
      using o main_attempts_break by metis
    with main_attempts_split [OF less_imp_le [OF n] tr] show ?thesis by simp
  qed
  have m9: "sorted (sleeps (snd (main_attempts e pid [0..<RETRIES])))"
    by (rule main_sleeps_sorted) (rule sorted_upt)
  have m10: "length (requests (snd (main_attempts e pid [0..<RETRIES]))) \<le> RETRIES"
    using main_requests_length [of e pid "[0..<RETRIES]"] by simp
  show ?thesis
    apply (intro conjI)
    subgoal by (rule t0)
    subgoal using t1 by blast
    subgoal using t2 by blast
    subgoal using t3 by blast
    subgoal using t4 by blast
    subgoal using t5 by blast
    subgoal by (rule t6)
    subgoal by (rule t7)
    subgoal by (rule m0)
    subgoal using m1 by blast
    subgoal using m2 by blast
    subgoal using m3 by blast
    subgoal using m4 by blast
    subgoal using m5 by blast
    subgoal using m6 by blast
    subgoal using m7 by blast
    subgoal using m8 by blast
    subgoal by (rule m9)
    subgoal by (rule m10)
    done
qed

theorem C4_backoff_witness:
  "(3::nat) < RETRIES
   \<and> tiki_queue_raises (scenario (\<lambda>pid k. if k = 0 then TransportFailure else if k = 1 then Response 503 None
          else if k = 2 then Response 200 None else Response 418 None)) 7 1
   \<and> transient (remote (scenario (\<lambda>pid k. if k = 0 then TransportFailure else if k = 1 then Response 503 None
          else if k = 2 then Response 200 None else Response 418 None)) 7 1)
   \<and> tiki_queue_raises (scenario (\<lambda>pid k. if k = 0 then TransportFailure else if k = 1 then Response 503 None
          else if k = 2 then Response 200 None else Response 418 None)) 7 3
   \<and> other_status (remote (scenario (\<lambda>pid k. if k = 0 then TransportFailure else if k = 1 then Response 503 None
          else if k = 2 then Response 200 None else Response 418 None)) 7 3)
   \<and> tiki_queue_fetch_product
        (scenario (\<lambda>pid k. if k = 0 then TransportFailure else if k = 1 then Response 503 None
          else if k = 2 then Response 200 None else Response 418 None)) 7 =
       (Inr None, [Request 1, Sleep 2, Request 2, Sleep 4, Request 3, Sleep 6, Request 4])
   \<and> main_raises (scenario (\<lambda>pid k. if k = 0 then TransportFailure else if k = 1 then Response 503 None
          else if k = 2 then Response 200 None else Response 418 None)) 7 0
   \<and> main_raises (scenario (\<lambda>pid k. if k = 0 then TransportFailure else if k = 1 then Response 503 None
          else if k = 2 then Response 200 None else Response 418 None)) 7 2
   \<and> main_attempts
        (scenario (\<lambda>pid k. if k = 0 then TransportFailure else if k = 1 then Response 503 None
          else if k = 2 then Response 200 None else Response 418 None)) 7 [0..<RETRIES] =
       (None, [Request 0, Request 1, Sleep 4, Request 2, Request 3])
   \<and> main_raises (scenario (\<lambda>pid k. if k = 0 then Response 200 (Some free_product)
          else Response 200 (Some empty_payload))) 7 0
   \<and> main_attempts (scenario (\<lambda>pid k. if k = 0 then Response 200 (Some free_product)
          else Response 200 (Some empty_payload))) 7 [0, 1] =
       (Some (empty_record 7), [Request 0, Request 1])
   \<and> tiki_queue_raises (scenario (\<lambda>pid k. if k = 0 then Response 200 (Some (PStr ''x''))
          else Response 200 (Some empty_payload))) 7 1
   \<and> tiki_queue_attempts (scenario (\<lambda>pid k. if k = 0 then Response 200 (Some (PStr ''x''))
          else Response 200 (Some empty_payload))) 7 [1, 2] =
       (Inr (Some (empty_record 7)), [Request 1, Sleep 2, Request 2])
   \<and> tiki_queue_fetch_product (scenario (\<lambda>pid k. TransportFailure)) 7 =
       (Inr None, [Request 1, Sleep 2, Request 2, Sleep 4, Request 3, Sleep 6, Request 4, Sleep 8,
                   Request 5, Sleep 10])
   \<and> main_attempts (scenario (\<lambda>pid k. Response 429 None)) 7 [0..<RETRIES] =
       (None, [Request 0, Sleep 2, Request 1, Sleep 4, Request 2, Sleep 6, Request 3, Sleep 8,
               Request 4, Sleep 10])
   \<and> main_attempts (scenario (\<lambda>pid k. TransportFailure)) 7 [0..<RETRIES] =
       (None, [Request 0, Request 1, Request 2, Request 3, Request 4])"
proof -
  let ?r1 = "\<lambda>(pid::int) (k::nat). if k = 0 then TransportFailure else if k = 1 then Response 503 None
          else if k = 2 then Response 200 None else Response 418 None"
  let ?r2 = "\<lambda>(pid::int) (k::nat). if k = 0 then Response 200 (Some free_product)
          else Response 200 (Some empty_payload)"
  let ?r3 = "\<lambda>(pid::int) (k::nat). if k = 0 then Response 200 (Some (PStr ''x''))
          else Response 200 (Some empty_payload)"
  have n: "(3::nat) < RETRIES" by (simp add: RETRIES_def)
  have k3: "k < 3 \<longleftrightarrow> k = 0 \<or> k = 1 \<or> k = 2" for k :: nat by auto
  have tq: "tiki_queue_raises (scenario ?r1) 7 1" "transient (remote (scenario ?r1) 7 1)"
    "tiki_queue_raises (scenario ?r1) 7 3" "tiki_queue_raises (scenario ?r3) 7 1"
    by (simp_all add: tiki_queue_raises_iff scenario_simps transient_status_def
        tiki_queue_result_def result_dict_def ebind_def)
  have o: "other_status (remote (scenario ?r1) 7 3)"
    by (simp add: scenario_simps transient_status_def)
  have mr: "main_raises (scenario ?r1) 7 0" "main_raises (scenario ?r1) 7 2"
    "main_raises (scenario ?r2) 7 0"
    by (simp_all add: main_raises_iff scenario_simps free_product_def main_result_def
        result_dict_def ebind_def main_clean_text_def)
  have h1: "\<forall>k<3. transient (remote (scenario ?r1) 7 k) \<or> tiki_queue_raises (scenario ?r1) 7 (Suc k)"
    unfolding k3 using tq by (auto simp: scenario_simps transient_status_def)
  have h2: "\<forall>k<3. transient (remote (scenario ?r1) 7 k) \<or> main_raises (scenario ?r1) 7 k"
    unfolding k3 using mr by (auto simp: scenario_simps transient_status_def)
  have o2: "\<exists>st body. remote (scenario ?r1) 7 3 = Response st body \<and> st \<noteq> 200 \<and> \<not> transient_status st"
    by (simp add: scenario_simps transient_status_def)
  have a1: "tiki_queue_fetch_product (scenario ?r1) 7 =
       (Inr None, [Request 1, Sleep 2, Request 2, Sleep 4, Request 3, Sleep 6, Request 4])"
  proof -
    from C4_backoff [where e = "scenario ?r1" and pid = 7 and n = 3 and a = 1 and rest = "[]"]
    have "3 < RETRIES \<and>
        (\<forall>k<3. transient (remote (scenario ?r1) 7 k) \<or> tiki_queue_raises (scenario ?r1) 7 (Suc k)) \<and>
        other_status (remote (scenario ?r1) 7 3) \<longrightarrow>
        tiki_queue_fetch_product (scenario ?r1) 7 =
          (Inr None, concat (map (\<lambda>a. [Request a, Sleep (2 * a)]) [1..<Suc 3]) @ [Request (Suc 3)])"
      by (elim conjE) assumption
    with n h1 o show ?thesis by (simp add: upt_rec)
  qed
  have a2: "main_attempts (scenario ?r1) 7 [0..<RETRIES] =
       (None, [Request 0, Request 1, Sleep 4, Request 2, Request 3])"
  proof -
    from C4_backoff [where e = "scenario ?r1" and pid = 7 and n = 3 and a = 0 and rest = "[]"]
    have "3 < RETRIES \<and>
        (\<forall>k<3. transient (remote (scenario ?r1) 7 k) \<or> main_raises (scenario ?r1) 7 k) \<and>
        (\<exists>st body. remote (scenario ?r1) 7 3 = Response st body \<and> st \<noteq> 200 \<and>
                    \<not> transient_status st) \<longrightarrow>
        main_attempts (scenario ?r1) 7 [0..<RETRIES] =
          (None, concat (map (\<lambda>a. if main_raises (scenario ?r1) 7 a then [Request a]
                                  else [Request a, Sleep (2 * (a + 1))]) [0..<3]) @ [Request 3])"
      by (elim conjE) assumption
    with n h2 o2 have "main_attempts (scenario ?r1) 7 [0..<RETRIES] =
          (None, concat (map (\<lambda>a. if main_raises (scenario ?r1) 7 a then [Request a]
                                  else [Request a, Sleep (2 * (a + 1))]) [0..<3]) @ [Request 3])"
      by blast
    moreover have "\<not> main_raises (scenario ?r1) 7 1"
      by (simp add: main_raises_iff scenario_simps)
    moreover have "[0..<3] = [0, 1, 2::nat]" by (simp add: upt_rec)
    ultimately show ?thesis using mr by simp
  qed
  have e1: "main_attempts (scenario ?r2) 7 [1] = (Some (empty_record 7), [Request 1])"
    by (simp add: main_attempt_def scenario_def empty_payload_def empty_record_def main_result_def
      result_dict_def ebind_def main_clean_text_def first_image_def with_missing_def
      main_missing_def items_def)
  have a3: "main_attempts (scenario ?r2) 7 [0, 1] = (Some (empty_record 7), [Request 0, Request 1])"
  proof -
    from C4_backoff [where e = "scenario ?r2" and pid = 7 and n = 0 and a = 0 and rest = "[1]"]
    have "main_raises (scenario ?r2) 7 0 \<longrightarrow>
        main_attempts (scenario ?r2) 7 (0 # [1]) =
          (fst (main_attempts (scenario ?r2) 7 [1]), Request 0 # snd (main_attempts (scenario ?r2) 7 [1]))"
      by (elim conjE) assumption
    with mr(3) show ?thesis unfolding e1 by simp
  qed
  have e2: "tiki_queue_attempts (scenario ?r3) 7 [2] = (Inr (Some (empty_record 7)), [Request 2])"
    by (simp add: tiki_queue_attempt_def scenario_def empty_payload_def empty_record_def
      tiki_queue_result_def result_dict_def ebind_def tiki_queue_clean_text_def first_image_def
      with_missing_def tiki_queue_missing_def items_def)
  have a4: "tiki_queue_attempts (scenario ?r3) 7 [1, 2] =
       (Inr (Some (empty_record 7)), [Request 1, Sleep 2, Request 2])"
  proof -
    from C4_backoff [where e = "scenario ?r3" and pid = 7 and n = 0 and a = 1 and rest = "[2]"]
    have "transient (remote (scenario ?r3) 7 (1 - 1)) \<or> tiki_queue_raises (scenario ?r3) 7 1 \<longrightarrow>
        tiki_queue_attempts (scenario ?r3) 7 (1 # [2]) =
          (fst (tiki_queue_attempts (scenario ?r3) 7 [2]),
           [Request 1, Sleep (2 * 1)] @ snd (tiki_queue_attempts (scenario ?r3) 7 [2]))"
      by (elim conjE) assumption
    with tq(4) show ?thesis unfolding e2 by simp
  qed
  have a5: "tiki_queue_fetch_product (scenario (\<lambda>pid k. TransportFailure)) 7 =
       (Inr None, [Request 1, Sleep 2, Request 2, Sleep 4, Request 3, Sleep 6, Request 4, Sleep 8,
                   Request 5, Sleep 10])"
  proof -
    let ?e = "scenario (\<lambda>pid k. TransportFailure)"
    from C4_backoff [where e = ?e and pid = 7 and n = 5 and a = 1 and rest = "[]"]
    have "(\<forall>k<RETRIES. transient (remote ?e 7 k) \<or> tiki_queue_raises ?e 7 (Suc k)) \<longrightarrow>
        tiki_queue_fetch_product ?e 7 =
          (Inr None, concat (map (\<lambda>a. [Request a, Sleep (2 * a)]) [1..<Suc RETRIES]))"
      by (elim conjE) assumption
    then show ?thesis by (simp add: scenario_simps RETRIES_def upt_rec)
  qed
  have a6: "main_attempts (scenario (\<lambda>pid k. Response 429 None)) 7 [0..<RETRIES] =
       (None, [Request 0, Sleep 2, Request 1, Sleep 4, Request 2, Sleep 6, Request 3, Sleep 8,
               Request 4, Sleep 10])"
  proof -
    let ?e = "scenario (\<lambda>pid k. Response 429 None)"
    from C4_backoff [where e = ?e and pid = 7 and n = 5 and a = 0 and rest = "[]"]
    have "(\<forall>k<RETRIES. \<exists>st body. remote ?e 7 k = Response st body \<and> transient_status st) \<longrightarrow>
        main_attempts ?e 7 [0..<RETRIES] =
          (None, concat (map (\<lambda>a. [Request a, Sleep (2 * (a + 1))]) [0..<RETRIES]))"
      by (elim conjE) assumption
    moreover have "concat (map (\<lambda>a. [Request a, Sleep (2 * (a + 1))]) [0..<RETRIES]) =
        [Request 0, Sleep 2, Request 1, Sleep 4, Request 2, Sleep 6, Request 3, Sleep 8,
               Request 4, Sleep 10]"
      unfolding attempts_main by simp
    ultimately show ?thesis by (simp add: scenario_simps transient_status_def)
  qed
  have a7: "main_attempts (scenario (\<lambda>pid k. TransportFailure)) 7 [0..<RETRIES] =
       (None, [Request 0, Request 1, Request 2, Request 3, Request 4])"
  proof -
    let ?e = "scenario (\<lambda>pid k. TransportFailure)"
    from C4_backoff [where e = ?e and pid = 7 and n = 5 and a = 0 and rest = "[]"]
    have "(\<forall>k<RETRIES. main_raises ?e 7 k) \<longrightarrow>
        main_attempts ?e 7 [0..<RETRIES] = (None, map Request [0..<RETRIES])"
      by (elim conjE) assumption
    moreover have "map Request [0..<RETRIES] = [Request 0, Request 1, Request 2, Request 3, Request 4]"
      unfolding attempts_main by simp
    ultimately show ?thesis by (simp add: scenario_simps main_raises_iff)
  qed
  show ?thesis using n tq o mr a1 a2 a3 a4 a5 a6 a7 by simp
qed

text \<open>
  Against C4 as stated: in \<open>main.py\<close> five transport exceptions in a row are five
  requests with no sleep between them.
\<close>

theorem C4_main_exception_without_sleep:
  "transient (remote (scenario (\<lambda>pid k. TransportFailure)) 7 0)
   \<and> requests (snd (main_attempts (scenario (\<lambda>pid k. TransportFailure)) 7 [0..<RETRIES])) =
       [0, 1, 2, 3, 4]
   \<and> sleeps (snd (main_attempts (scenario (\<lambda>pid k. TransportFailure)) 7 [0..<RETRIES])) = []"
  unfolding attempts_main by (simp add: scenario_def main_attempt_def)

section \<open>Runs stopped inside a batch\<close>

lemma run_statements_Nil: "run_statements [] d = d"
  by (simp add: run_statements_def)

lemma run_statements_Cons: "run_statements (f # fs) d = run_statements fs (f d)"
  by (simp add: run_statements_def)

lemma main_statements_all:
  "run_statements (main_statements good error) d =
     \<lparr>tiki_queue =
        main_update_queue_status
          (main_update_queue_status (tiki_queue d) (map id' good) ''done'' None)
          (map id' error) ''error'' (Some ''Failed after retries''),
      tiki_product = insert_batch (tiki_product d) good,
      tiki_error = insert_batch (tiki_error d) error\<rparr>"
  by (cases d) (simp add: main_statements_def run_statements_def)

lemma tiki_queue_statements_all:
  "run_statements (tiki_queue_statements good_records error_records error_ids) d =
     \<lparr>tiki_queue =
        tiki_queue_update_queue_status
          (tiki_queue_update_queue_status (tiki_queue d) (map id' good_records) ''done'' None)
          error_ids ''error'' (Some ''404 Not Found''),
      tiki_product = insert_batch_to_db (tiki_product d) good_records,
      tiki_error = insert_batch_to_db (tiki_error d) error_records\<rparr>"
  by (cases d) (simp add: tiki_queue_statements_def run_statements_def)

text \<open>A loop that is not stopped before its last batch ends is the loop of the script.\<close>

lemma main_stopped_never:
  "length bs \<le> k \<Longrightarrow> main_stopped e bs k n d = main_batches e bs d"
proof (induction bs arbitrary: k d)
  case Nil
  then show ?case by simp
next
  case (Cons b bs)
  then obtain k' where k: "k = Suc k'" "length bs \<le> k'" by (cases k) auto
  show ?case
  proof (cases "main_process_batch e b")
    case (Inl ex)
    then show ?thesis by simp
  next
    case (Inr x)
    obtain good error retries where x: "x = (good, error, retries)" by (cases x)
    with Inr k Cons.IH [OF k(2)] show ?thesis by (simp add: main_statements_all)
  qed
qed

lemma tiki_queue_step_statements:
  "fst (tiki_queue_process_batch e d b) =
     (case tiki_queue_route e (sched e b) ([], [], []) of
        (good_records, error_records, error_ids) \<Rightarrow>
          run_statements (tiki_queue_statements good_records error_records error_ids) d)"
  by (simp add: tiki_queue_process_batch_def tiki_queue_statements_all split: prod.splits)

lemma tiki_queue_stopped_never:
  "length bs \<le> k \<Longrightarrow> tiki_queue_stopped e bs k n d = tiki_queue_batches e bs d"
proof (induction bs arbitrary: k d)
  case Nil
  then show ?case by simp
next
  case (Cons b bs)
  then obtain k' where k: "k = Suc k'" "length bs \<le> k'" by (cases k) auto
  with Cons.IH [OF k(2)] show ?case
    by (simp add: tiki_queue_step_statements split: prod.splits)
qed

text \<open>A loop that is stopped before the first statement of a batch.\<close>

lemma main_stopped_between:
  "main_stopped e bs k 0 d = main_batches e (take k bs) d"
proof (induction bs arbitrary: k d)
  case Nil
  then show ?case by simp
next
  case (Cons b bs)
  obtain rc' where p: "main_process_batch e b =
     Inr (filter (\<lambda>r. \<not> all_none r) (map (main_outcome e) (sched e b)),
          filter all_none (map (main_outcome e) (sched e b)), rc')"
    using main_process_batch_eq by blast
  show ?case
  proof (cases k)
    case 0
    with p show ?thesis by (simp add: run_statements_Nil)
  next
    case (Suc k')
    with p Cons.IH [of k'] show ?thesis by (simp add: main_statements_all)
  qed
qed

lemma tiki_queue_stopped_between:
  "tiki_queue_stopped e bs k 0 d = tiki_queue_batches e (take k bs) d"
proof (induction bs arbitrary: k d)
  case Nil
  then show ?case by simp
next
  case (Cons b bs)
  show ?case
  proof (cases k)
    case 0
    then show ?thesis by (simp add: run_statements_Nil split: prod.splits)
  next
    case (Suc k')
    with Cons.IH [of k'] show ?thesis
      by (simp add: tiki_queue_step_statements split: prod.splits)
  qed
qed

lemma main_uninterrupted_reachable: "main_uninterrupted d \<Longrightarrow> main_reachable d"
proof (induction rule: main_uninterrupted.induct)
  case (main_initial d)
  then show ?case by (rule main_start)
next
  case (main_whole_batches d e d1 ids pending_ids k d')
  from main_whole_batches.hyps(6)
  have "main_stopped e (chunks BATCH_SIZE pending_ids) k 0 d1 = Inr d'"
    by (simp add: main_stopped_between)
  with main_whole_batches.IH main_whole_batches.hyps(2,3,4,5) show ?case by (rule main_run)
qed

lemma tiki_queue_uninterrupted_reachable: "tiki_queue_uninterrupted d \<Longrightarrow> tiki_queue_reachable d"
proof (induction rule: tiki_queue_uninterrupted.induct)
  case (tiki_queue_initial d)
  then show ?case by (rule tiki_queue_start)
next
  case (tiki_queue_whole_batches d e d1 ids pending_ids d' k)
  from tiki_queue_whole_batches.hyps(6)
  have "d' = tiki_queue_stopped e (chunks BATCH_SIZE pending_ids) k 0 d1"
    by (simp add: tiki_queue_stopped_between)
  with tiki_queue_whole_batches.IH tiki_queue_whole_batches.hyps(2,3,4,5) show ?case
    by (rule tiki_queue_run)
qed

section \<open>What holds when a run is stopped\<close>

lemma error_rows_queued_iff:
  "error_rows_queued d \<longleftrightarrow> id' ` set (tiki_error d) \<subseteq> qid ` set (tiki_queue d)"
proof -
  have "error_rows_queued d \<longleftrightarrow>
          (\<forall>r\<in>set (tiki_error d). \<exists>row\<in>set (tiki_queue d). id' r = qid row)"
    by (simp add: error_rows_queued_def list_all_iff list_ex_iff eq_commute [of "id' _"])
  then show ?thesis by (simp add: image_subset_iff image_iff)
qed

lemma main_statement_queued:
  assumes "f \<in> set (main_statements good error)"
    and "id' ` set error \<subseteq> qid ` set (tiki_queue d)" and "error_rows_queued d"
  shows "error_rows_queued (f d) \<and> qid ` set (tiki_queue (f d)) = qid ` set (tiki_queue d)"
proof -
  from assms(1) consider
      "f = (\<lambda>d. d\<lparr>tiki_product := insert_batch (tiki_product d) good\<rparr>)"
    | "f = (\<lambda>d. d\<lparr>tiki_error := insert_batch (tiki_error d) error\<rparr>)"
    | "f = (\<lambda>d. d\<lparr>tiki_queue := main_update_queue_status (tiki_queue d) (map id' good)
                                      ''done'' None\<rparr>)"
    | "f = (\<lambda>d. d\<lparr>tiki_queue := main_update_queue_status (tiki_queue d) (map id' error)
                                      ''error'' (Some ''Failed after retries'')\<rparr>)"
    unfolding main_statements_def by auto
  then show ?thesis
  proof cases
    case 1
    with assms(3) show ?thesis by (simp add: error_rows_queued_iff)
  next
    case 2
    with assms(2,3) show ?thesis
      by (simp add: error_rows_queued_iff insert_batch_def upsert_all_ids)
  next
    case 3
    with assms(3) show ?thesis
      by (simp add: error_rows_queued_iff main_update_queue_status_eq set_status_ids)
  next
    case 4
    with assms(3) show ?thesis
      by (simp add: error_rows_queued_iff main_update_queue_status_eq set_status_ids)
  qed
qed

lemma tiki_queue_statement_queued:
  assumes "f \<in> set (tiki_queue_statements good error error_ids)"
    and "id' ` set error \<subseteq> qid ` set (tiki_queue d)" and "error_rows_queued d"
  shows "error_rows_queued (f d) \<and> qid ` set (tiki_queue (f d)) = qid ` set (tiki_queue d)"
proof -
  from assms(1) consider
      "f = (\<lambda>d. d\<lparr>tiki_product := insert_batch_to_db (tiki_product d) good\<rparr>)"
    | "f = (\<lambda>d. d\<lparr>tiki_error := insert_batch_to_db (tiki_error d) error\<rparr>)"
    | "f = (\<lambda>d. d\<lparr>tiki_queue := tiki_queue_update_queue_status (tiki_queue d) (map id' good)
                                      ''done'' None\<rparr>)"
    | "f = (\<lambda>d. d\<lparr>tiki_queue := tiki_queue_update_queue_status (tiki_queue d) error_ids
                                      ''error'' (Some ''404 Not Found'')\<rparr>)"
    unfolding tiki_queue_statements_def by auto
  then show ?thesis
  proof cases
    case 1
    with assms(3) show ?thesis by (simp add: error_rows_queued_iff)
  next
    case 2
    with assms(2,3) show ?thesis
      by (simp add: error_rows_queued_iff insert_batch_to_db_def upsert_all_ids)
  next
    case 3
    with assms(3) show ?thesis
      by (simp add: error_rows_queued_iff tiki_queue_update_queue_status_eq set_status_ids)
  next
    case 4
    with assms(3) show ?thesis
      by (simp add: error_rows_queued_iff tiki_queue_update_queue_status_eq set_status_ids)
  qed
qed

lemma run_statements_queued:
  assumes step: "\<And>f d. f \<in> set fs \<Longrightarrow> id' ` set error \<subseteq> qid ` set (tiki_queue d) \<Longrightarrow>
            error_rows_queued d \<Longrightarrow>
            error_rows_queued (f d) \<and> qid ` set (tiki_queue (f d)) = qid ` set (tiki_queue d)"
  shows "set gs \<subseteq> set fs \<Longrightarrow> id' ` set error \<subseteq> qid ` set (tiki_queue d) \<Longrightarrow>
         error_rows_queued d \<Longrightarrow>
         error_rows_queued (run_statements gs d) \<and>
         qid ` set (tiki_queue (run_statements gs d)) = qid ` set (tiki_queue d)"
proof (induction gs arbitrary: d)
  case Nil
  then show ?case by (simp add: run_statements_Nil)
next
  case (Cons g gs)
  then have g: "g \<in> set fs" by simp
  from step [OF g Cons.prems(2,3)]
  have 1: "error_rows_queued (g d)" "qid ` set (tiki_queue (g d)) = qid ` set (tiki_queue d)"
    by simp_all
  from Cons.prems(1) have 2: "set gs \<subseteq> set fs" by simp
  from Cons.prems(2) 1(2) have 3: "id' ` set error \<subseteq> qid ` set (tiki_queue (g d))" by simp
  from Cons.IH [OF 2 3 1(1)] 1(2) show ?case by (simp add: run_statements_Cons)
qed

lemma main_stopped_queued:
  assumes sched: "\<forall>b. set (sched e b) = set b"
  shows "error_rows_queued d \<Longrightarrow> set (concat bs) \<subseteq> qid ` set (tiki_queue d) \<Longrightarrow>
         main_stopped e bs k n d = Inr d' \<Longrightarrow> error_rows_queued d'"
proof (induction bs arbitrary: k d)
  case Nil
  then show ?case by simp
next
  case (Cons b bs)
  let ?G = "filter (\<lambda>r. \<not> all_none r) (map (main_outcome e) (sched e b))"
  let ?E = "filter all_none (map (main_outcome e) (sched e b))"
  obtain rc' where p: "main_process_batch e b = Inr (?G, ?E, rc')"
    using main_process_batch_eq by blast
  have "id' ` set ?E = set (map id' ?E)" by simp
  also have "\<dots> \<subseteq> set (sched e b)" unfolding main_error_ids_eq by auto
  also have "\<dots> = set b" using sched by simp
  finally have "id' ` set ?E \<subseteq> set b" .
  moreover have "set b \<subseteq> qid ` set (tiki_queue d)" using Cons.prems(2) by simp
  ultimately have E: "id' ` set ?E \<subseteq> qid ` set (tiki_queue d)" by (rule subset_trans)
  have q: "error_rows_queued (run_statements gs d) \<and>
         qid ` set (tiki_queue (run_statements gs d)) = qid ` set (tiki_queue d)"
    if "set gs \<subseteq> set (main_statements ?G ?E)" for gs
    using that E Cons.prems(1)
    by (rule run_statements_queued [where fs = "main_statements ?G ?E", rotated])
       (rule main_statement_queued)
  show ?case
  proof (cases k)
    case 0
    with p Cons.prems(3) have "d' = run_statements (take n (main_statements ?G ?E)) d" by simp
    with q [of "take n (main_statements ?G ?E)"] show ?thesis by (simp add: set_take_subset)
  next
    case (Suc k')
    let ?d1 = "run_statements (main_statements ?G ?E) d"
    from Suc p Cons.prems(3) have s: "main_stopped e bs k' n ?d1 = Inr d'" by simp
    from q [of "main_statements ?G ?E"]
    have 1: "error_rows_queued ?d1" "qid ` set (tiki_queue ?d1) = qid ` set (tiki_queue d)"
      by simp_all
    have 2: "set (concat bs) \<subseteq> qid ` set (tiki_queue ?d1)" using Cons.prems(2) 1(2) by simp
    from Cons.IH [OF 1(1) 2 s] show ?thesis .
  qed
qed

lemma tiki_queue_stopped_queued:
  assumes sched: "\<forall>b. set (sched e b) = set b"
  shows "error_rows_queued d \<Longrightarrow> set (concat bs) \<subseteq> qid ` set (tiki_queue d) \<Longrightarrow>
         error_rows_queued (tiki_queue_stopped e bs k n d)"
proof (induction bs arbitrary: k d)
  case Nil
  then show ?case by simp
next
  case (Cons b bs)
  let ?G = "concat (map (tiki_queue_good e) (sched e b))"
  let ?I = "concat (map (tiki_queue_not_found e) (sched e b))"
  let ?E = "map not_found_record ?I"
  have p: "tiki_queue_route e (sched e b) ([], [], []) = (?G, ?E, ?I)"
    by (simp add: tiki_queue_route_eq)
  have "id' ` set ?E = set ?I" by (rule not_found_record_ids)
  also have "\<dots> \<subseteq> set (sched e b)" by (rule tiki_queue_not_found_subset)
  also have "\<dots> = set b" using sched by simp
  finally have "id' ` set ?E \<subseteq> set b" .
  moreover have "set b \<subseteq> qid ` set (tiki_queue d)" using Cons.prems(2) by simp
  ultimately have E: "id' ` set ?E \<subseteq> qid ` set (tiki_queue d)" by (rule subset_trans)
  have q: "error_rows_queued (run_statements gs d) \<and>
         qid ` set (tiki_queue (run_statements gs d)) = qid ` set (tiki_queue d)"
    if "set gs \<subseteq> set (tiki_queue_statements ?G ?E ?I)" for gs
    using that E Cons.prems(1)
    by (rule run_statements_queued [where fs = "tiki_queue_statements ?G ?E ?I", rotated])
       (rule tiki_queue_statement_queued)
  show ?case
  proof (cases k)
    case 0
    with p have "tiki_queue_stopped e (b # bs) k n d =
        run_statements (take n (tiki_queue_statements ?G ?E ?I)) d" by simp
    with q [of "take n (tiki_queue_statements ?G ?E ?I)"] show ?thesis
      by (simp add: set_take_subset)
  next
    case (Suc k')
    let ?d1 = "run_statements (tiki_queue_statements ?G ?E ?I) d"
    from Suc p have s: "tiki_queue_stopped e (b # bs) k n d = tiki_queue_stopped e bs k' n ?d1"
      by simp
    from q [of "tiki_queue_statements ?G ?E ?I"]
    have 1: "error_rows_queued ?d1" "qid ` set (tiki_queue ?d1) = qid ` set (tiki_queue d)"
      by simp_all
    have 2: "set (concat bs) \<subseteq> qid ` set (tiki_queue ?d1)" using Cons.prems(2) 1(2) by simp
    from Cons.IH [OF 1(1) 2] s show ?thesis by simp
  qed
qed

lemma main_reachable_queued: "main_reachable d \<Longrightarrow> error_rows_queued d"
proof (induction rule: main_reachable.induct)
  case (main_start d)
  then show ?case by (simp add: error_rows_queued_def)
next
  case (main_run d e d1 ids pending_ids k n d')
  let ?bs = "chunks BATCH_SIZE pending_ids"
  have "qid ` set (tiki_queue d) \<subseteq> qid ` set (tiki_queue d1)" "tiki_error d1 = tiki_error d"
    using main_run.hyps(3) by (simp_all add: main_init_queue_def insert_all_ids)
  with main_run.IH have 1: "error_rows_queued d1" unfolding error_rows_queued_iff by auto
  have "set (concat ?bs) = set (fetch_pending_ids (tiki_queue d1))"
    using main_run.hyps(5) by (simp add: chunks_concat BATCH_SIZE_pos)
  also have "\<dots> \<subseteq> qid ` set (tiki_queue d1)" by (auto simp: fetch_pending_ids_def)
  finally have 2: "set (concat ?bs) \<subseteq> qid ` set (tiki_queue d1)" .
  from main_stopped_queued [OF main_run.hyps(2) 1 2 main_run.hyps(6)] show ?case .
qed

lemma tiki_queue_reachable_queued: "tiki_queue_reachable d \<Longrightarrow> error_rows_queued d"
proof (induction rule: tiki_queue_reachable.induct)
  case (tiki_queue_start d)
  then show ?case by (simp add: error_rows_queued_def)
next
  case (tiki_queue_run d e d1 ids pending_ids d' k n)
  let ?bs = "chunks BATCH_SIZE pending_ids"
  have "qid ` set (tiki_queue d) \<subseteq> qid ` set (tiki_queue d1)" "tiki_error d1 = tiki_error d"
    using tiki_queue_run.hyps(3) by (simp_all add: tiki_queue_init_queue_def insert_all_ids)
  with tiki_queue_run.IH have 1: "error_rows_queued d1" unfolding error_rows_queued_iff by auto
  have "set (concat ?bs) = set (fetch_pending_or_error_ids (tiki_queue d1))"
    using tiki_queue_run.hyps(5) by (simp add: chunks_concat BATCH_SIZE_pos)
  also have "\<dots> \<subseteq> qid ` set (tiki_queue d1)" by (auto simp: fetch_pending_or_error_ids_def)
  finally have 2: "set (concat ?bs) \<subseteq> qid ` set (tiki_queue d1)" .
  from tiki_queue_stopped_queued [OF tiki_queue_run.hyps(2) 1 2] tiki_queue_run.hyps(6)
  show ?case by simp
qed

text \<open>
  C9, as the scripts have it. In every state that a sequence of runs can be in, also
  when runs are stopped between two statements, each record of \<open>tiki_error\<close> has a
  queue row with its id. When no run is stopped inside a batch, at the end of every
  batch of \<open>main.py\<close> each record of \<open>tiki_error\<close> has a queue row with its id and
  status \<open>error\<close>, and at the end of every batch of \<open>tiki_queue.py\<close> one whose
  status is \<open>error\<close> or \<open>done\<close>: the record stays when a later run fetches the id.
\<close>

theorem C9_error_records_and_status:
  "(main_reachable d \<longrightarrow> error_rows_queued d) \<and>
   (tiki_queue_reachable d \<longrightarrow> error_rows_queued d) \<and>
   (main_uninterrupted d \<longrightarrow> main_reachable d \<and> error_rows_marked d) \<and>
   (tiki_queue_uninterrupted d \<longrightarrow> tiki_queue_reachable d \<and> error_rows_settled d)"
  using main_reachable_queued tiki_queue_reachable_queued
    main_uninterrupted_reachable tiki_queue_uninterrupted_reachable
    main_uninterrupted_inv tiki_queue_uninterrupted_settled
  by blast

text \<open>
  A run in which id 2 answers 404 and which is stopped after the insert into
  \<open>tiki_error\<close>, before the status of the id is updated.
\<close>

lemma stopped_404_main:
  "main_stopped (scenario (\<lambda>pid k. Response 404 None)) (chunks BATCH_SIZE [2]) 0 2
     (empty_db\<lparr>tiki_queue := main_init_queue (tiki_queue empty_db) [2]\<rparr>) =
   Inr \<lparr>tiki_queue = [\<lparr>qid = 2, status = ''pending'', last_error = None\<rparr>],
        tiki_product = [], tiki_error = [failure_dict 2]\<rparr>"
  by (simp add: run_defs fetch_404_main scenario_simps main_statements_def run_statements_def)

lemma stopped_404_tiki_queue:
  "tiki_queue_stopped (scenario (\<lambda>pid k. Response 404 None)) (chunks BATCH_SIZE [2]) 0 2
     (if length (tiki_queue empty_db) = 0
      then empty_db\<lparr>tiki_queue := tiki_queue_init_queue (tiki_queue empty_db) (dedup [2])\<rparr>
      else empty_db) =
   \<lparr>tiki_queue = [\<lparr>qid = 2, status = ''pending'', last_error = None\<rparr>],
    tiki_product = [], tiki_error = [not_found_record 2]\<rparr>"
  by (simp add: run_defs fetch_404_tiki_queue scenario_simps tiki_queue_statements_def
      run_statements_def)

lemma empty_db_reachable: "main_reachable empty_db" "tiki_queue_reachable empty_db"
  by (simp_all add: main_start tiki_queue_start empty_db_def)

lemma reachable_stopped_404_main:
  "main_reachable \<lparr>tiki_queue = [\<lparr>qid = 2, status = ''pending'', last_error = None\<rparr>],
        tiki_product = [], tiki_error = [failure_dict 2]\<rparr>"
proof -
  have "distinct [2::int]" by simp
  moreover have "set [2] = set (fetch_pending_ids (tiki_queue
        (empty_db\<lparr>tiki_queue := main_init_queue (tiki_queue empty_db) [2]\<rparr>)))"
    by (simp add: run_defs)
  ultimately show ?thesis
    using main_run [OF empty_db_reachable(1) sched_scenario refl _ _ stopped_404_main] by blast
qed

lemma reachable_stopped_404_tiki_queue:
  "tiki_queue_reachable \<lparr>tiki_queue = [\<lparr>qid = 2, status = ''pending'', last_error = None\<rparr>],
        tiki_product = [], tiki_error = [not_found_record 2]\<rparr>"
proof -
  have "distinct [2::int]" by simp
  moreover have "set [2] = set (fetch_pending_or_error_ids (tiki_queue
        (if length (tiki_queue empty_db) = 0
         then empty_db\<lparr>tiki_queue := tiki_queue_init_queue (tiki_queue empty_db) (dedup [2])\<rparr>
         else empty_db)))"
    by (simp add: run_defs)
  ultimately show ?thesis
    using tiki_queue_run [OF empty_db_reachable(2) sched_scenario refl _ _
            stopped_404_tiki_queue [symmetric]] by blast
qed

text \<open>The next run of \<open>main.py\<close>, not stopped, in which id 2 answers 200.\<close>

lemma run_stopped_then_200_main:
  "main_main (scenario (\<lambda>pid k. Response 200 (Some empty_payload))) [2]
     \<lparr>tiki_queue = [\<lparr>qid = 2, status = ''pending'', last_error = None\<rparr>],
      tiki_product = [], tiki_error = [failure_dict 2]\<rparr> =
   Inr \<lparr>tiki_queue = [\<lparr>qid = 2, status = ''done'', last_error = None\<rparr>],
        tiki_product = [empty_record 2], tiki_error = [failure_dict 2]\<rparr>"
  by (simp add: main_main_def run_defs fetch_empty_main scenario_simps empty_record_def)

lemma main_main_reachable:
  assumes "main_reachable d" "\<forall>b. set (sched e b) = set b" "main_main e ids d = Inr d'"
    and "distinct (map qid (tiki_queue d))"
  shows "main_reachable d'"
proof -
  let ?d1 = "d\<lparr>tiki_queue := main_init_queue (tiki_queue d) ids\<rparr>"
  let ?bs = "chunks BATCH_SIZE (fetch_pending_ids (tiki_queue ?d1))"
  have 2: "main_stopped e ?bs (length ?bs) 0 ?d1 = Inr d'"
    using assms(3) by (simp add: main_main_def Let_def main_stopped_never)
  have "distinct (map qid (tiki_queue ?d1))"
    using assms(4) by (simp add: main_init_queue_def insert_all_distinct)
  then have 1: "distinct (fetch_pending_ids (tiki_queue ?d1))" by (rule distinct_pending)
  show ?thesis using main_run [OF assms(1) assms(2) refl 1 refl 2] .
qed

lemma reachable_stopped_then_200_main:
  "main_reachable \<lparr>tiki_queue = [\<lparr>qid = 2, status = ''done'', last_error = None\<rparr>],
        tiki_product = [empty_record 2], tiki_error = [failure_dict 2]\<rparr>"
  using main_main_reachable [OF reachable_stopped_404_main sched_scenario run_stopped_then_200_main]
  by simp

theorem C9_error_records_and_status_witness:
  "main_reachable \<lparr>tiki_queue = [\<lparr>qid = 2, status = ''pending'', last_error = None\<rparr>],
        tiki_product = [], tiki_error = [failure_dict 2]\<rparr>
   \<and> error_rows_queued \<lparr>tiki_queue = [\<lparr>qid = 2, status = ''pending'', last_error = None\<rparr>],
        tiki_product = [], tiki_error = [failure_dict 2]\<rparr>
   \<and> tiki_queue_reachable \<lparr>tiki_queue = [\<lparr>qid = 2, status = ''pending'', last_error = None\<rparr>],
        tiki_product = [], tiki_error = [not_found_record 2]\<rparr>
   \<and> error_rows_queued \<lparr>tiki_queue = [\<lparr>qid = 2, status = ''pending'', last_error = None\<rparr>],
        tiki_product = [], tiki_error = [not_found_record 2]\<rparr>
   \<and> main_uninterrupted \<lparr>tiki_queue = [\<lparr>qid = 2, status = ''error'',
                          last_error = Some ''Failed after retries''\<rparr>],
          tiki_product = [], tiki_error = [failure_dict 2]\<rparr>
   \<and> main_reachable \<lparr>tiki_queue = [\<lparr>qid = 2, status = ''error'',
                          last_error = Some ''Failed after retries''\<rparr>],
          tiki_product = [], tiki_error = [failure_dict 2]\<rparr>
   \<and> error_rows_marked \<lparr>tiki_queue = [\<lparr>qid = 2, status = ''error'',
                          last_error = Some ''Failed after retries''\<rparr>],
          tiki_product = [], tiki_error = [failure_dict 2]\<rparr>
   \<and> tiki_queue_uninterrupted
     \<lparr>tiki_queue = [\<lparr>qid = 2, status = ''done'', last_error = None\<rparr>],
      tiki_product = [\<lparr>id' = 2, name = PStr ''a'', url_key = PStr ''k'', price = PInt 0,
                       description = PStr ''d'', image_url = PStr ''u'',
                       missing_fields = PStr ''price''\<rparr>],
      tiki_error = [not_found_record 2]\<rparr>
   \<and> tiki_queue_reachable
     \<lparr>tiki_queue = [\<lparr>qid = 2, status = ''done'', last_error = None\<rparr>],
      tiki_product = [\<lparr>id' = 2, name = PStr ''a'', url_key = PStr ''k'', price = PInt 0,
                       description = PStr ''d'', image_url = PStr ''u'',
                       missing_fields = PStr ''price''\<rparr>],
      tiki_error = [not_found_record 2]\<rparr>
   \<and> error_rows_settled
     \<lparr>tiki_queue = [\<lparr>qid = 2, status = ''done'', last_error = None\<rparr>],
      tiki_product = [\<lparr>id' = 2, name = PStr ''a'', url_key = PStr ''k'', price = PInt 0,
                       description = PStr ''d'', image_url = PStr ''u'',
                       missing_fields = PStr ''price''\<rparr>],
      tiki_error = [not_found_record 2]\<rparr>"
  using C9_error_records_and_status [of "\<lparr>tiki_queue = [\<lparr>qid = 2, status = ''pending'', last_error = None\<rparr>],
        tiki_product = [], tiki_error = [failure_dict 2]\<rparr>"]
        C9_error_records_and_status [of "\<lparr>tiki_queue = [\<lparr>qid = 2, status = ''pending'', last_error = None\<rparr>],
        tiki_product = [], tiki_error = [not_found_record 2]\<rparr>"]
        C9_error_records_and_status [of "\<lparr>tiki_queue = [\<lparr>qid = 2, status = ''error'',
                          last_error = Some ''Failed after retries''\<rparr>],
          tiki_product = [], tiki_error = [failure_dict 2]\<rparr>"]
        C9_error_records_and_status [of "\<lparr>tiki_queue = [\<lparr>qid = 2, status = ''done'', last_error = None\<rparr>],
      tiki_product = [\<lparr>id' = 2, name = PStr ''a'', url_key = PStr ''k'', price = PInt 0,
                       description = PStr ''d'', image_url = PStr ''u'',
                       missing_fields = PStr ''price''\<rparr>],
      tiki_error = [not_found_record 2]\<rparr>"]
        reachable_stopped_404_main reachable_stopped_404_tiki_queue
        uninterrupted_404_main uninterrupted_404_then_200_tiki_queue
  by blast

text \<open>
  Against C9 as stated. In \<open>tiki_queue.py\<close>, a run in which id 2 answers 404 and a
  second run in which it answers 200, neither of them stopped, leave the error record
  of id 2 in \<open>tiki_error\<close> while its queue row has status \<open>done\<close>. In both
  scripts a run stopped after the insert into \<open>tiki_error\<close> leaves the error record
  of id 2 while its queue row is still \<open>pending\<close>; the next run of \<open>main.py\<close>
  selects the id again, and when the id then answers 200 the run ends with the error
  record still stored and the queue row \<open>done\<close>.
\<close>

theorem C9_error_record_without_error_status:
  "tiki_queue_uninterrupted
     \<lparr>tiki_queue = [\<lparr>qid = 2, status = ''done'', last_error = None\<rparr>],
      tiki_product = [\<lparr>id' = 2, name = PStr ''a'', url_key = PStr ''k'', price = PInt 0,
                       description = PStr ''d'', image_url = PStr ''u'',
                       missing_fields = PStr ''price''\<rparr>],
      tiki_error = [not_found_record 2]\<rparr>
   \<and> \<not> error_rows_marked
     \<lparr>tiki_queue = [\<lparr>qid = 2, status = ''done'', last_error = None\<rparr>],
      tiki_product = [\<lparr>id' = 2, name = PStr ''a'', url_key = PStr ''k'', price = PInt 0,
                       description = PStr ''d'', image_url = PStr ''u'',
                       missing_fields = PStr ''price''\<rparr>],
      tiki_error = [not_found_record 2]\<rparr>
   \<and> main_reachable \<lparr>tiki_queue = [\<lparr>qid = 2, status = ''pending'', last_error = None\<rparr>],
        tiki_product = [], tiki_error = [failure_dict 2]\<rparr>
   \<and> \<not> error_rows_settled \<lparr>tiki_queue = [\<lparr>qid = 2, status = ''pending'', last_error = None\<rparr>],
        tiki_product = [], tiki_error = [failure_dict 2]\<rparr>
   \<and> tiki_queue_reachable \<lparr>tiki_queue = [\<lparr>qid = 2, status = ''pending'', last_error = None\<rparr>],
        tiki_product = [], tiki_error = [not_found_record 2]\<rparr>
   \<and> \<not> error_rows_settled \<lparr>tiki_queue = [\<lparr>qid = 2, status = ''pending'', last_error = None\<rparr>],
        tiki_product = [], tiki_error = [not_found_record 2]\<rparr>
   \<and> main_main (scenario (\<lambda>pid k. Response 200 (Some empty_payload))) [2]
        \<lparr>tiki_queue = [\<lparr>qid = 2, status = ''pending'', last_error = None\<rparr>],
         tiki_product = [], tiki_error = [failure_dict 2]\<rparr> =
      Inr \<lparr>tiki_queue = [\<lparr>qid = 2, status = ''done'', last_error = None\<rparr>],
           tiki_product = [empty_record 2], tiki_error = [failure_dict 2]\<rparr>
   \<and> main_reachable \<lparr>tiki_queue = [\<lparr>qid = 2, status = ''done'', last_error = None\<rparr>],
        tiki_product = [empty_record 2], tiki_error = [failure_dict 2]\<rparr>
   \<and> \<not> error_rows_marked \<lparr>tiki_queue = [\<lparr>qid = 2, status = ''done'', last_error = None\<rparr>],
        tiki_product = [empty_record 2], tiki_error = [failure_dict 2]\<rparr>"
  using uninterrupted_404_then_200_tiki_queue reachable_stopped_404_main
    reachable_stopped_404_tiki_queue run_stopped_then_200_main reachable_stopped_then_200_main
  by (simp add: error_rows_marked_def error_rows_settled_def not_found_record_def failure_dict_def)

end
